theory Spec2Isabelle
  imports Complex_Main "HOL-Library.Log_Nat"
begin

section \<open>Data model of findBlockBeforeDate.ts\<close>

text \<open>
  The program talks to an Ethereum JSON-RPC endpoint and binary-searches the block
  heights for the latest block whose timestamp is strictly before a target time.

  Numbers. Block heights are JavaScript \<open>bigint\<close>s, modelled as \<open>int\<close>.
  Timestamps and the fields of the result are JavaScript \<open>number\<close>s, that is
  doubles; the ones this program computes hold an integer or an infinity, and are
  values of the type \<open>number\<close> below. \<open>Number(bigint)\<close> rounds to the nearest
  double, ties to even, and is the identity only up to magnitude \<open>2 ^ 53\<close>. The
  target is a \<open>number\<close> too; the time parser returns finite integers only, so
  it is an \<open>int\<close>, compared with a \<open>number\<close> by \<open>number_less\<close>.

  Strings are \<open>string\<close>; the characters that matter to the code (digits, sign,
  hex letters, white space) are all below code point 256.
\<close>

record RpcBlock =
  number :: string        \<comment> \<open>hex string\<close>
  timestamp :: string     \<comment> \<open>hex string\<close>
  hash :: string
  parentHash :: string

text \<open>
  Every \<open>throw\<close> of the source is a value of \<open>error\<close>: the two errors raised by
  \<open>rpc\<close>, a rejected \<open>fetch\<close>, the missing block of \<open>getBlockByNumber\<close>, the
  \<open>SyntaxError\<close> of \<open>BigInt(string)\<close> and the two errors of the date parser.
\<close>

datatype error =
    FetchRejected string
  | RpcHttp nat string
  | RpcError string
  | BlockNotFound string
  | BigIntSyntaxError string
  | InvalidNumericDate
  | UnrecognizedDate string

section \<open>JavaScript numbers\<close>

text \<open>
  The doubles that hold an integer, and the two infinities. \<open>NaN\<close> and
  fractions do not arise: \<open>Number\<close> of a bigint or of an integer literal is an
  integer or an infinity, and \<open>Math.floor\<close> of a finite quotient is an integer.
\<close>

datatype number = NegInfinity | Num int | Infinity

text \<open>The number of binary digits of a positive integer.\<close>

function bit_length :: "int \<Rightarrow> nat" where
  "bit_length n = (if n \<le> 0 then 0 else Suc (bit_length (n div 2)))"
  by pat_completeness auto
termination
  by (relation "measure nat") auto

declare bit_length.simps [simp del]

text \<open>The quotient \<open>a / b\<close> rounded to the nearest integer, ties to the even one.\<close>

definition round_even :: "int \<Rightarrow> int \<Rightarrow> int" where
  "round_even a b =
     (let q = a div b; r = a mod b
      in if b < 2 * r \<or> (2 * r = b \<and> odd q) then q + 1 else q)"

text \<open>
  The double nearest to the quotient \<open>a / b \<ge> 1\<close>, as a significand \<open>m\<close> of 53
  bits and an exponent \<open>e\<close>: its value is \<open>m * 2 ^ e\<close>. With \<open>L\<close> the bit length
  of the integer part, \<open>a / b\<close> lies in \<open>[2 ^ (L - 1), 2 ^ L)\<close>, where doubles are
  \<open>2 ^ (L - 53)\<close> apart.
\<close>

definition nearest_double :: "int \<Rightarrow> int \<Rightarrow> int \<times> int" where
  "nearest_double a b =
     (let e = int (bit_length (a div b)) - 53
      in (if 0 \<le> e then round_even a (b * 2 ^ nat e) else round_even (a * 2 ^ nat (- e)) b, e))"

definition scaled_floor :: "int \<times> int \<Rightarrow> int" where
  "scaled_floor x = (case x of (m, e) \<Rightarrow> if 0 \<le> e then m * 2 ^ nat e else m div 2 ^ nat (- e))"

definition scaled_ceiling :: "int \<times> int \<Rightarrow> int" where
  "scaled_ceiling x =
     (case x of (m, e) \<Rightarrow>
        if 0 \<le> e then m * 2 ^ nat e else (m + 2 ^ nat (- e) - 1) div 2 ^ nat (- e))"

text \<open>
  \<open>Number(b)\<close> for a bigint, and for a decimal integer literal of value \<open>b\<close>: the
  nearest double, an infinity when the rounded magnitude reaches \<open>2 ^ 1024\<close> (it
  then has more than 1024 binary digits).
\<close>

definition Number :: "int \<Rightarrow> number" where
  "Number b =
     (if b = 0 then Num 0
      else (let v = scaled_floor (nearest_double \<bar>b\<bar> 1)
            in if 1024 < bit_length v then (if b < 0 then NegInfinity else Infinity)
               else Num (if b < 0 then - v else v)))"

text \<open>
  \<open>Math.floor(k / d)\<close> for an integer-valued double \<open>k\<close> and a positive integer
  \<open>d\<close>: the division rounds to the nearest double before the floor is taken.
\<close>

definition Math_floor_div :: "int \<Rightarrow> int \<Rightarrow> int" where
  "Math_floor_div k d =
     (let a = \<bar>k\<bar>
      in if a div d = 0 then (if k < 0 then - 1 else 0)
         else if k < 0 then - scaled_ceiling (nearest_double a d)
         else scaled_floor (nearest_double a d))"

text \<open>The comparison \<open>x < t\<close> of a number with a finite integer.\<close>

fun number_less :: "number \<Rightarrow> int \<Rightarrow> bool" where
  "number_less NegInfinity t = True"
| "number_less (Num a) t = (a < t)"
| "number_less Infinity t = False"

section \<open>Strings: \<open>trim\<close>, \<open>BigInt(string)\<close>, \<open>toString(16)\<close>\<close>

definition is_space :: "char \<Rightarrow> bool" where
  "is_space c \<longleftrightarrow>
     c \<in> {CHR 0x09, CHR 0x0A, CHR 0x0B, CHR 0x0C, CHR 0x0D, CHR 0x20, CHR 0xA0}"

definition trim :: "string \<Rightarrow> string" where
  "trim s = rev (dropWhile is_space (rev (dropWhile is_space s)))"

definition digit_value :: "char \<Rightarrow> nat option" where
  "digit_value c =
     (let k = (of_char c :: nat) in
      if 48 \<le> k \<and> k \<le> 57 then Some (k - 48)
      else if 97 \<le> k \<and> k \<le> 102 then Some (k - 87)
      else if 65 \<le> k \<and> k \<le> 70 then Some (k - 55)
      else None)"

definition is_digit :: "nat \<Rightarrow> char \<Rightarrow> bool" where
  "is_digit r c = (case digit_value c of None \<Rightarrow> False | Some v \<Rightarrow> v < r)"

definition digit_of :: "char \<Rightarrow> int" where
  "digit_of c = (case digit_value c of None \<Rightarrow> 0 | Some v \<Rightarrow> int v)"

definition radix_value :: "nat \<Rightarrow> string \<Rightarrow> int" where
  "radix_value r ds = foldl (\<lambda>a c. a * int r + digit_of c) 0 ds"

definition parse_radix :: "nat \<Rightarrow> string \<Rightarrow> int option" where
  "parse_radix r ds =
     (if ds \<noteq> [] \<and> list_all (is_digit r) ds then Some (radix_value r ds) else None)"

text \<open>
  \<open>BigInt(string)\<close> (StringToBigInt of the language standard): white space is
  trimmed, the empty string is \<open>0n\<close>, a literal is hexadecimal, octal or binary after
  \<open>0x\<close>, \<open>0o\<close>, \<open>0b\<close> (no sign), or decimal with an optional sign. \<open>None\<close> is the
  \<open>SyntaxError\<close>.
\<close>

definition StringToBigInt :: "string \<Rightarrow> int option" where
  "StringToBigInt s =
     (let t = trim s in
      if t = [] then Some 0
      else if take 2 t \<in> {''0x'', ''0X''} then parse_radix 16 (drop 2 t)
      else if take 2 t \<in> {''0o'', ''0O''} then parse_radix 8 (drop 2 t)
      else if take 2 t \<in> {''0b'', ''0B''} then parse_radix 2 (drop 2 t)
      else if hd t = CHR ''-'' then map_option uminus (parse_radix 10 (tl t))
      else if hd t = CHR ''+'' then parse_radix 10 (tl t)
      else parse_radix 10 t)"

definition hexToBigInt :: "string \<Rightarrow> error + int" where
  "hexToBigInt hex =
     (case StringToBigInt hex of None \<Rightarrow> Inl (BigIntSyntaxError hex) | Some v \<Rightarrow> Inr v)"

definition hex_char :: "int \<Rightarrow> char" where
  "hex_char d = ''0123456789abcdef'' ! nat d"

function hex_digits :: "int \<Rightarrow> string" where
  "hex_digits k = (if k < 16 then [hex_char k] else hex_digits (k div 16) @ [hex_char (k mod 16)])"
  by pat_completeness auto
termination
  by (relation "measure nat") auto

declare hex_digits.simps [simp del]

text \<open>\<open>n.toString(16)\<close> on a bigint: a minus sign, then the digits of the magnitude.\<close>

definition toString16 :: "int \<Rightarrow> string" where
  "toString16 k = (if k < 0 then CHR ''-'' # hex_digits (- k) else hex_digits k)"

section \<open>The time parser\<close>

text \<open>
  The test \<open>/^-?\d+$/\<close> on the trimmed input.
\<close>

definition numeric_literal :: "string \<Rightarrow> bool" where
  "numeric_literal t =
     (case t of
        [] \<Rightarrow> False
      | c # cs \<Rightarrow> if c = CHR ''-'' then cs \<noteq> [] \<and> list_all (is_digit 10) cs
                  else list_all (is_digit 10) (c # cs))"

text \<open>
  \<open>Number(input)\<close> on a string that passed the test: white space is stripped and
  the signed decimal literal is converted to the nearest double.
\<close>

definition Number_of_literal :: "string \<Rightarrow> number" where
  "Number_of_literal input =
     (let t = trim input in
      Number (if t \<noteq> [] \<and> hd t = CHR ''-'' then - radix_value 10 (tl t)
              else radix_value 10 t))"

text \<open>
  \<open>Number.isFinite\<close> fails for the infinities only. \<open>Date.parse\<close> belongs to
  the host environment; it is a parameter, giving the epoch milliseconds (an integer)
  or \<open>None\<close> for \<open>NaN\<close>.
\<close>

definition Number_isFinite :: "number \<Rightarrow> bool" where
  "Number_isFinite x = (case x of Num k \<Rightarrow> True | _ \<Rightarrow> False)"

definition parseTargetToUnixSeconds :: "(string \<Rightarrow> int option) \<Rightarrow> string \<Rightarrow> error + int" where
  "parseTargetToUnixSeconds Date_parse input =
     (if numeric_literal (trim input) then
        (let n = Number_of_literal input in
         if \<not> Number_isFinite n then Inl InvalidNumericDate
         else (case n of
                 Num k \<Rightarrow> Inr (if k > 10000000000 then Math_floor_div k 1000 else k)
               | _ \<Rightarrow> Inl InvalidNumericDate))
      else
        (case Date_parse input of
           None \<Rightarrow> Inl (UnrecognizedDate input)
         | Some ms \<Rightarrow> Inr (Math_floor_div ms 1000)))"

section \<open>The JSON-RPC client\<close>

text \<open>
  A request is the body that \<open>rpc\<close> posts: the identifier taken from the global
  counter \<open>rpcId\<close>, the method and the parameters.
\<close>

datatype param = PString string | PBool bool

record request =
  req_id :: nat
  req_method :: string
  req_params :: "param list"

text \<open>
  What \<open>fetch\<close> and the decoding of the body can give: a rejected promise, a
  status that is not \<open>ok\<close> (with the body text), a body with an \<open>error\<close> member,
  or a body whose \<open>result\<close> is handed back under the type the caller names.
\<close>

datatype 'r response =
    Rejected string
  | HttpStatus nat string
  | JsonError string
  | JsonResult 'r

text \<open>
  The endpoint behind \<open>url\<close>: its answer to a request, at the two result types the
  program asks for (\<open>rpc<string>\<close> and \<open>rpc<RpcBlock>\<close>, where \<open>None\<close> is a
  \<open>null\<close> result).
\<close>

record node =
  fetch_string :: "request \<Rightarrow> string response"
  fetch_block :: "request \<Rightarrow> RpcBlock option response"

text \<open>
  The state of the client: the counter \<open>rpcId\<close>, and the requests posted so
  far (the network effect of \<open>fetch\<close>, oldest first). The counter starts at 1 and
  a search posts a few dozen requests, so it is a natural number.
\<close>

record net =
  rpcId :: nat
  sent :: "request list"

definition rpc ::
  "(request \<Rightarrow> 'r response) \<Rightarrow> string \<Rightarrow> param list \<Rightarrow> net \<Rightarrow> (error + 'r) \<times> net" where
  "rpc fetch method params s =
     (let req = \<lparr>req_id = rpcId s, req_method = method, req_params = params\<rparr>;
          s' = s\<lparr>rpcId := rpcId s + 1, sent := sent s @ [req]\<rparr>
      in (case fetch req of
            Rejected m \<Rightarrow> Inl (FetchRejected m)
          | HttpStatus st text \<Rightarrow> Inl (RpcHttp st text)
          | JsonError e \<Rightarrow> Inl (RpcError e)
          | JsonResult r \<Rightarrow> Inr r,
          s'))"

definition getLatestBlockNumber :: "node \<Rightarrow> net \<Rightarrow> (error + int) \<times> net" where
  "getLatestBlockNumber url s =
     (case rpc (fetch_string url) ''eth_blockNumber'' [] s of
        (Inl e, s') \<Rightarrow> (Inl e, s')
      | (Inr hexNum, s') \<Rightarrow> (hexToBigInt hexNum, s'))"

definition getBlockByNumber :: "node \<Rightarrow> int \<Rightarrow> net \<Rightarrow> (error + RpcBlock) \<times> net" where
  "getBlockByNumber url k s =
     (let hex = ''0x'' @ toString16 k in
      case rpc (fetch_block url) ''eth_getBlockByNumber'' [PString hex, PBool False] s of
        (Inl e, s') \<Rightarrow> (Inl e, s')
      | (Inr None, s') \<Rightarrow> (Inl (BlockNotFound hex), s')
      | (Inr (Some block), s') \<Rightarrow> (Inr block, s'))"

section \<open>The search\<close>

record cand =
  cand_n :: int
  cand_ts :: number
  cand_hash :: string

record found =
  found_number :: number
  found_hash :: string
  found_timestamp :: number

record loop_state =
  lo :: int
  hi :: int
  candidate :: "cand option"

text \<open>The probe point \<open>(lo + hi) >> 1n\<close>.\<close>

definition mid :: "loop_state \<Rightarrow> int" where
  "mid st = drop_bit 1 (lo st + hi st)"

text \<open>One pass through the body of the \<open>while\<close> loop.\<close>

definition loop_body :: "node \<Rightarrow> int \<Rightarrow> loop_state \<Rightarrow> net \<Rightarrow> (error + loop_state) \<times> net" where
  "loop_body url targetUnixSec st s =
     (case getBlockByNumber url (mid st) s of
        (Inl e, s') \<Rightarrow> (Inl e, s')
      | (Inr b, s') \<Rightarrow>
          (case hexToBigInt (timestamp b) of
             Inl e \<Rightarrow> (Inl e, s')
           | Inr t \<Rightarrow>
               (let ts = Number t in
                if number_less ts targetUnixSec
                then (Inr (st\<lparr>candidate := Some \<lparr>cand_n = mid st, cand_ts = ts, cand_hash = hash b\<rparr>,
                               lo := mid st + 1\<rparr>), s')
                else (Inr (st\<lparr>hi := mid st - 1\<rparr>), s'))))"

text \<open>
  The \<open>while\<close> loop. A pass that completes moves \<open>lo\<close> above \<open>mid\<close> or \<open>hi\<close>
  below it, so \<open>hi - lo + 1\<close> decreases and the loop is a total function.
\<close>

function search_loop :: "node \<Rightarrow> int \<Rightarrow> loop_state \<Rightarrow> net \<Rightarrow> (error + cand option) \<times> net" where
  "search_loop url targetUnixSec st s =
     (if lo st \<le> hi st then
        (case loop_body url targetUnixSec st s of
           (Inl e, s') \<Rightarrow> (Inl e, s')
         | (Inr st', s') \<Rightarrow> search_loop url targetUnixSec st' s')
      else (Inr (candidate st), s))"
  by pat_completeness auto
termination
proof (relation "measure (\<lambda>(url, t, st, s). nat (hi st - lo st + 1))", goal_cases)
  case 1
  show ?case by simp
next
  case (2 url t st s x1 s' st')
  then have body: "loop_body url t st s = (Inr st', s')" by simp
  have "lo st \<le> (lo st + hi st) div 2 \<and> (lo st + hi st) div 2 \<le> hi st"
    using 2(1) by linarith
  then have "lo st \<le> mid st \<and> mid st \<le> hi st"
    by (simp add: mid_def drop_bit_eq_div)
  with body have "hi st' - lo st' < hi st - lo st"
    by (auto simp: loop_body_def Let_def split: prod.splits sum.splits if_splits)
  with 2(1) show ?case by simp
qed

declare search_loop.simps [simp del]

definition findBlockBeforeDate :: "node \<Rightarrow> int \<Rightarrow> net \<Rightarrow> (error + found option) \<times> net" where
  "findBlockBeforeDate url targetUnixSec s =
     (case getLatestBlockNumber url s of
        (Inl e, s1) \<Rightarrow> (Inl e, s1)
      | (Inr latestNum, s1) \<Rightarrow>
          (case getBlockByNumber url latestNum s1 of
             (Inl e, s2) \<Rightarrow> (Inl e, s2)
           | (Inr latest, s2) \<Rightarrow>
               (case hexToBigInt (timestamp latest) of
                  Inl e \<Rightarrow> (Inl e, s2)
                | Inr t \<Rightarrow>
                    (let latestTs = Number t in
                     if targetUnixSec \<le> 0 then (Inr None, s2)
                     else if number_less latestTs targetUnixSec then
                       (Inr (Some \<lparr>found_number = Number latestNum, found_hash = hash latest,
                                   found_timestamp = latestTs\<rparr>), s2)
                     else
                       (case search_loop url targetUnixSec
                               \<lparr>lo = 0, hi = latestNum, candidate = None\<rparr> s2 of
                          (Inl e, s3) \<Rightarrow> (Inl e, s3)
                        | (Inr None, s3) \<Rightarrow> (Inr None, s3)
                        | (Inr (Some c), s3) \<Rightarrow>
                            (Inr (Some \<lparr>found_number = Number (cand_n c), found_hash = cand_hash c,
                                        found_timestamp = cand_ts c\<rparr>), s3))))))"

section \<open>Configurations of the loop\<close>

text \<open>
  \<open>loop_reach url t c c'\<close>: starting the loop in configuration \<open>c\<close> (the loop
  variables and the client state), some number of complete passes through the body
  leads to \<open>c'\<close>. The configurations reachable from the initial one are exactly the
  points at which the loop condition is tested.
\<close>

inductive loop_reach :: "node \<Rightarrow> int \<Rightarrow> loop_state \<times> net \<Rightarrow> loop_state \<times> net \<Rightarrow> bool"
  for url :: node and t :: int and c :: "loop_state \<times> net" where
    reach_start: "loop_reach url t c c"
  | reach_pass: "loop_reach url t c (st, s) \<Longrightarrow> lo st \<le> hi st \<Longrightarrow>
       loop_body url t st s = (Inr st', s') \<Longrightarrow> loop_reach url t c (st', s')"

section \<open>Requests and chain states\<close>

text \<open>The request for the block at a height, and the effect of posting a request.\<close>

definition block_request :: "nat \<Rightarrow> int \<Rightarrow> request" where
  "block_request i k =
     \<lparr>req_id = i, req_method = ''eth_getBlockByNumber'',
      req_params = [PString (''0x'' @ toString16 k), PBool False]\<rparr>"

definition number_request :: "nat \<Rightarrow> request" where
  "number_request i = \<lparr>req_id = i, req_method = ''eth_blockNumber'', req_params = []\<rparr>"

definition post :: "net \<Rightarrow> request \<Rightarrow> net" where
  "post s q = s\<lparr>rpcId := rpcId s + 1, sent := sent s @ [q]\<rparr>"

text \<open>
  A chain state: the endpoint reports the height \<open>latestNum\<close>, and for every height
  \<open>k\<close> of \<open>[0, latestNum]\<close> it serves the block \<open>blk k\<close>, whose timestamp field decodes
  to \<open>tsf k\<close>.
\<close>

definition serves :: "node \<Rightarrow> int \<Rightarrow> (int \<Rightarrow> RpcBlock) \<Rightarrow> (int \<Rightarrow> int) \<Rightarrow> bool" where
  "serves url latestNum blk tsf \<longleftrightarrow>
     (\<forall>i. \<exists>hx. fetch_string url (number_request i) = JsonResult hx \<and>
              hexToBigInt hx = Inr latestNum) \<and>
     (\<forall>i k. 0 \<le> k \<and> k \<le> latestNum \<longrightarrow>
        fetch_block url (block_request i k) = JsonResult (Some (blk k)) \<and>
        hexToBigInt (timestamp (blk k)) = Inr (tsf k))"

definition nondecreasing :: "(int \<Rightarrow> int) \<Rightarrow> int \<Rightarrow> bool" where
  "nondecreasing tsf latestNum \<longleftrightarrow>
     (\<forall>j k. 0 \<le> j \<and> j \<le> k \<and> k \<le> latestNum \<longrightarrow> tsf j \<le> tsf k)"

text \<open>
  A fixed oracle state: the answer of the endpoint depends on the method and the
  parameters only, not on the request identifier.
\<close>

definition answers_fixed :: "node \<Rightarrow> bool" where
  "answers_fixed url \<longleftrightarrow>
     (\<forall>q q'. req_method q = req_method q' \<and> req_params q = req_params q' \<longrightarrow>
        fetch_string url q = fetch_string url q' \<and> fetch_block url q = fetch_block url q')"

text \<open>
  The timestamps of the chain lie in the range where \<open>Number\<close> is exact.
\<close>

definition exact_times :: "(int \<Rightarrow> int) \<Rightarrow> int \<Rightarrow> bool" where
  "exact_times tsf latestNum \<longleftrightarrow>
     (\<forall>k. 0 \<le> k \<and> k \<le> latestNum \<longrightarrow> \<bar>tsf k\<bar> \<le> 2 ^ 53)"

text \<open>What the search holds as candidate, and returns, when the first height
  that does not qualify is \<open>b\<close>.\<close>

definition cand_at :: "(int \<Rightarrow> RpcBlock) \<Rightarrow> (int \<Rightarrow> int) \<Rightarrow> int \<Rightarrow> cand option" where
  "cand_at blk tsf b =
     (if b = 0 then None
      else Some \<lparr>cand_n = b - 1, cand_ts = Number (tsf (b - 1)),
                 cand_hash = hash (blk (b - 1))\<rparr>)"

definition found_at :: "(int \<Rightarrow> RpcBlock) \<Rightarrow> (int \<Rightarrow> int) \<Rightarrow> int \<Rightarrow> found option" where
  "found_at blk tsf b =
     (if b = 0 then None
      else Some \<lparr>found_number = Number (b - 1), found_hash = hash (blk (b - 1)),
                 found_timestamp = Number (tsf (b - 1))\<rparr>)"

text \<open>The object returned for a candidate.\<close>

definition to_found :: "cand \<Rightarrow> found" where
  "to_found c = \<lparr>found_number = Number (cand_n c), found_hash = cand_hash c,
                 found_timestamp = cand_ts c\<rparr>"

section \<open>A test endpoint\<close>

text \<open>
  An endpoint that serves a fixed list of blocks, the block at height \<open>k\<close> being the
  \<open>k\<close>-th of the list, and the chain of the boundary scenario, with timestamps
  \<open>[100, 200, 200, 300, 400, 500]\<close>.
\<close>

definition list_node :: "RpcBlock list \<Rightarrow> node" where
  "list_node bs =
     \<lparr>fetch_string = (\<lambda>q.
        if req_method q = ''eth_blockNumber''
        then JsonResult (''0x'' @ toString16 (int (length bs) - 1))
        else JsonError ''method not found''),
      fetch_block = (\<lambda>q.
        if req_method q = ''eth_getBlockByNumber'' then
          (case req_params q of
             [PString hx, PBool full] \<Rightarrow>
               (case StringToBigInt hx of
                  None \<Rightarrow> JsonError ''invalid params''
                | Some k \<Rightarrow> JsonResult (if 0 \<le> k \<and> k < int (length bs)
                                        then Some (bs ! nat k) else None))
           | _ \<Rightarrow> JsonError ''invalid params'')
        else JsonError ''method not found'')\<rparr>"

definition mk_block :: "int \<Rightarrow> int \<Rightarrow> RpcBlock" where
  "mk_block k ts =
     \<lparr>number = ''0x'' @ toString16 k, timestamp = ''0x'' @ toString16 ts,
      hash = ''0xb'' @ toString16 k, parentHash = ''0xb'' @ toString16 (k - 1)\<rparr>"

definition example_times :: "int list" where
  "example_times = [100, 200, 200, 300, 400, 500]"

definition example_blocks :: "RpcBlock list" where
  "example_blocks = map (\<lambda>k. mk_block (int k) (example_times ! k)) [0..<6]"

definition example_node :: node where
  "example_node = list_node example_blocks"

text \<open>The chain state the example endpoint serves.\<close>

definition example_blk :: "int \<Rightarrow> RpcBlock" where
  "example_blk k = example_blocks ! nat k"

definition example_ts :: "int \<Rightarrow> int" where
  "example_ts k = example_times ! nat k"

text \<open>
  Endpoints for chains outside the exact range of \<open>Number\<close>: a chain given by
  its list of timestamps; a chain of height \<open>N\<close> whose blocks below \<open>N\<close> carry the
  timestamp 100 and whose latest block carries 200; and a single block whose
  timestamp field is the decimal string \<open>-5\<close>, which \<open>BigInt\<close> accepts.
\<close>

definition chain_blocks :: "int list \<Rightarrow> RpcBlock list" where
  "chain_blocks tss = map (\<lambda>k. mk_block (int k) (tss ! k)) [0..<length tss]"

definition chain_node :: "int list \<Rightarrow> node" where
  "chain_node tss = list_node (chain_blocks tss)"

definition chain_blk :: "int list \<Rightarrow> int \<Rightarrow> RpcBlock" where
  "chain_blk tss k = chain_blocks tss ! nat k"

definition chain_ts :: "int list \<Rightarrow> int \<Rightarrow> int" where
  "chain_ts tss k = tss ! nat k"

definition tall_ts :: "int \<Rightarrow> int \<Rightarrow> int" where
  "tall_ts N k = (if k < N then 100 else 200)"

definition tall_blk :: "int \<Rightarrow> int \<Rightarrow> RpcBlock" where
  "tall_blk N k = mk_block k (tall_ts N k)"

definition tall_node :: "int \<Rightarrow> node" where
  "tall_node N =
     \<lparr>fetch_string = (\<lambda>q.
        if req_method q = ''eth_blockNumber'' then JsonResult (''0x'' @ toString16 N)
        else JsonError ''method not found''),
      fetch_block = (\<lambda>q.
        if req_method q = ''eth_getBlockByNumber'' then
          (case req_params q of
             [PString hx, PBool full] \<Rightarrow>
               (case StringToBigInt hx of
                  None \<Rightarrow> JsonError ''invalid params''
                | Some k \<Rightarrow> JsonResult (if 0 \<le> k \<and> k \<le> N then Some (tall_blk N k) else None))
           | _ \<Rightarrow> JsonError ''invalid params'')
        else JsonError ''method not found'')\<rparr>"

definition negative_node :: node where
  "negative_node =
     list_node [\<lparr>number = ''0x0'', timestamp = ''-5'', hash = ''0xb0'', parentHash = ''0x0''\<rparr>]"

definition beyond_times_a :: "int list" where
  "beyond_times_a = [100, 9007199254740995, 9007199254740997]"

definition beyond_times_b :: "int list" where
  "beyond_times_b = [9007199254740995, 9007199254740997]"

definition beyond_times_c :: "int list" where
  "beyond_times_c = [9007199254740993, 9007199254740995]"

text \<open>The client state at program start: \<open>let rpcId = 1\<close>, nothing posted.\<close>

definition net0 :: net where
  "net0 = \<lparr>rpcId = 1, sent = []\<rparr>"

text \<open>
  The example endpoint with a failure injected: the request whose identifier is \<open>n\<close>
  is rejected. With \<open>n = 4\<close> that is the second probe of a search.
\<close>

definition failing_node :: "nat \<Rightarrow> node" where
  "failing_node n =
     \<lparr>fetch_string = (\<lambda>q. if req_id q = n then Rejected ''timeout''
                            else fetch_string example_node q),
      fetch_block = (\<lambda>q. if req_id q = n then Rejected ''timeout''
                           else fetch_block example_node q)\<rparr>"

text \<open>The client state after the two opening requests on the example chain, and the
  loop variables after the first probe of the search for target 250.\<close>

definition net2 :: net where
  "net2 = post (post net0 (number_request 1)) (block_request 2 5)"

definition after_first_probe :: loop_state where
  "after_first_probe =
     \<lparr>lo = 3, hi = 5,
      candidate = Some \<lparr>cand_n = 2, cand_ts = Num 200, cand_hash = ''0xb2''\<rparr>\<rparr>"

section \<open>Exactness of \<open>Number\<close> up to \<open>2 ^ 53\<close>\<close>

lemma bit_length_le: "a < 2 ^ k \<Longrightarrow> bit_length a \<le> k"
proof (induction k arbitrary: a)
  case 0
  then show ?case by (simp add: bit_length.simps)
next
  case (Suc k)
  then have "a div 2 < 2 ^ k" by simp
  from Suc.IH [OF this] show ?case by (subst bit_length.simps) simp
qed

lemma round_even_one: "round_even a 1 = a"
  by (simp add: round_even_def)

lemma nearest_double_exact:
  assumes "0 \<le> a" and "a \<le> 2 ^ 53"
  shows "scaled_floor (nearest_double a 1) = a"
proof (cases "a = 2 ^ 53")
  case True
  have "scaled_floor (nearest_double (2 ^ 53) 1) = 2 ^ 53" by code_simp
  with True show ?thesis by simp
next
  case False
  with assms have "a < 2 ^ 53" by simp
  from bit_length_le [OF this] have "bit_length a \<le> 53" .
  then show ?thesis
    by (simp add: nearest_double_def scaled_floor_def round_even_one Let_def)
qed

lemma Number_exact:
  assumes "\<bar>b\<bar> \<le> 2 ^ 53"
  shows "Number b = Num b"
proof (cases "b = 0")
  case True
  then show ?thesis by (simp add: Number_def)
next
  case False
  have v: "scaled_floor (nearest_double \<bar>b\<bar> 1) = \<bar>b\<bar>"
    using assms by (intro nearest_double_exact) simp_all
  have "\<bar>b\<bar> < 2 ^ 54"
  proof -
    have "(2::int) ^ 53 < 2 ^ 54" by (rule power_strict_increasing) simp_all
    with assms show ?thesis by (rule le_less_trans)
  qed
  from bit_length_le [OF this] have "\<not> 1024 < bit_length \<bar>b\<bar>" by simp
  then show ?thesis using False v by (auto simp: Number_def Let_def)
qed

lemma exact_timesD:
  "exact_times tsf latestNum \<Longrightarrow> 0 \<le> k \<Longrightarrow> k \<le> latestNum \<Longrightarrow> Number (tsf k) = Num (tsf k)"
  unfolding exact_times_def by (intro Number_exact) blast

section \<open>The client state and the loop, step by step\<close>

lemma mid_bounds: "lo st \<le> hi st \<Longrightarrow> lo st \<le> mid st \<and> mid st \<le> hi st"
  unfolding mid_def drop_bit_eq_div by simp linarith

lemma loop_body_shrinks:
  assumes "lo st \<le> hi st" and "loop_body url t st s = (Inr st', s')"
  shows "hi st' - lo st' < hi st - lo st"
  using assms mid_bounds [OF assms(1)]
  by (auto simp: loop_body_def Let_def split: prod.splits sum.splits if_splits)

lemma rpc_snd:
  "snd (rpc f m ps s) = post s \<lparr>req_id = rpcId s, req_method = m, req_params = ps\<rparr>"
  by (simp add: rpc_def post_def Let_def)

lemma getLatestBlockNumber_snd:
  "snd (getLatestBlockNumber url s) = post s (number_request (rpcId s))"
  using rpc_snd [of "fetch_string url" "''eth_blockNumber''" "[]" s]
  by (auto simp: getLatestBlockNumber_def number_request_def split: prod.splits sum.splits)

lemma getBlockByNumber_snd:
  "snd (getBlockByNumber url k s) = post s (block_request (rpcId s) k)"
  using rpc_snd [of "fetch_block url" "''eth_getBlockByNumber''"
      "[PString (''0x'' @ toString16 k), PBool False]" s]
  by (auto simp: getBlockByNumber_def block_request_def Let_def
      split: prod.splits sum.splits option.splits)

lemma loop_body_snd:
  "snd (loop_body url t st s) = post s (block_request (rpcId s) (mid st))"
  using getBlockByNumber_snd [of url "mid st" s]
  by (auto simp: loop_body_def Let_def split: prod.splits sum.splits)

lemma loop_body_error:
  "fst (getBlockByNumber url (mid st) s) = Inl e \<Longrightarrow>
   loop_body url t st s = (Inl e, post s (block_request (rpcId s) (mid st)))"
  using getBlockByNumber_snd [of url "mid st" s]
  by (auto simp: loop_body_def split: prod.splits sum.splits)

lemma loop_body_next:
  assumes "loop_body url t st s = (Inr st', s')"
  shows "(lo st' = mid st + 1 \<and> hi st' = hi st) \<or> (lo st' = lo st \<and> hi st' = mid st - 1)"
  using assms
  by (auto simp: loop_body_def Let_def split: prod.splits sum.splits if_splits)

lemma search_loop_exit:
  "\<not> lo st \<le> hi st \<Longrightarrow> search_loop url t st s = (Inr (candidate st), s)"
  by (simp add: search_loop.simps)

lemma search_loop_abort:
  "lo st \<le> hi st \<Longrightarrow> loop_body url t st s = (Inl e, s') \<Longrightarrow>
   search_loop url t st s = (Inl e, s')"
  by (subst search_loop.simps) simp

lemma search_loop_pass:
  "lo st \<le> hi st \<Longrightarrow> loop_body url t st s = (Inr st', s') \<Longrightarrow>
   search_loop url t st s = search_loop url t st' s'"
  by (subst search_loop.simps) simp

lemma loop_reach_search_loop:
  "loop_reach url t c c' \<Longrightarrow>
   search_loop url t (fst c') (snd c') = search_loop url t (fst c) (snd c)"
  by (induction rule: loop_reach.induct) (simp_all add: search_loop_pass)

lemma loop_reach_bounds:
  "loop_reach url t c c' \<Longrightarrow> lo (fst c) \<le> lo (fst c') \<and> hi (fst c') \<le> hi (fst c)"
proof (induction rule: loop_reach.induct)
  case reach_start
  show ?case by simp
next
  case (reach_pass st s st' s')
  from loop_body_next [OF reach_pass.hyps(3)] mid_bounds [OF reach_pass.hyps(2)] reach_pass.IH
  show ?case by auto
qed

lemma post_sent [simp]: "sent (post s q) = sent s @ [q]"
  and post_rpcId [simp]: "rpcId (post s q) = rpcId s + 1"
  by (simp_all add: post_def)

lemma half_sizes:
  fixes a b :: int
  assumes "a \<le> b"
  shows "nat (b - ((a + b) div 2 + 1) + 1) \<le> nat (b - a + 1) div 2"
    and "nat (((a + b) div 2 - 1) - a + 1) \<le> nat (b - a + 1) div 2"
proof -
  have eq: "nat (b - a + 1) div 2 = nat ((b - a + 1) div 2)"
    using assms by (simp add: nat_div_distrib)
  show "nat (b - ((a + b) div 2 + 1) + 1) \<le> nat (b - a + 1) div 2"
    unfolding eq using assms by (intro nat_mono) linarith
  show "nat (((a + b) div 2 - 1) - a + 1) \<le> nat (b - a + 1) div 2"
    unfolding eq using assms by (intro nat_mono) linarith
qed

lemma loop_body_halves:
  assumes "lo st \<le> hi st" and "loop_body url t st s = (Inr st', s')"
  shows "nat (hi st' - lo st' + 1) \<le> nat (hi st - lo st + 1) div 2"
  using loop_body_next [OF assms(2)] half_sizes [OF assms(1)]
  by (auto simp: mid_def drop_bit_eq_div)

lemma floorlog_step:
  assumes "0 < m" and "k \<le> m div 2"
  shows "Suc (floorlog 2 k) \<le> floorlog 2 m"
proof -
  have "floorlog 2 m = floorlog 2 (m div 2) + 1"
    using assms(1) by (subst compute_floorlog) simp
  moreover have "floorlog 2 k \<le> floorlog 2 (m div 2)"
    using assms(2) by (rule floorlog_mono)
  ultimately show ?thesis by simp
qed

lemma search_loop_induct [consumes 0, case_names pass]:
  assumes "\<And>st s. (\<And>st' s'. lo st \<le> hi st \<Longrightarrow> loop_body url t st s = (Inr st', s') \<Longrightarrow> P st' s')
             \<Longrightarrow> P st s"
  shows "P st s"
proof -
  have "u = url \<Longrightarrow> v = t \<Longrightarrow> P st s" for u v
  proof (induction u v st s rule: search_loop.induct)
    case (1 u v st s)
    show ?case
    proof (rule assms)
      fix st' s'
      assume "lo st \<le> hi st" and "loop_body url t st s = (Inr st', s')"
      then show "P st' s'" using "1.IH" [of "Inr st'" s' st'] "1.prems" by simp
    qed
  qed
  then show ?thesis by simp
qed

text \<open>The requests posted by the loop.\<close>

lemma search_loop_trace:
  "\<exists>qs. sent (snd (search_loop url t st s)) = sent s @ qs \<and>
        rpcId (snd (search_loop url t st s)) = rpcId s + length qs \<and>
        length qs \<le> floorlog 2 (nat (hi st - lo st + 1)) \<and>
        (\<forall>q \<in> set qs. \<exists>i k. lo st \<le> k \<and> k \<le> hi st \<and> q = block_request i k)"
proof (induction st s rule: search_loop_induct [where url = url and t = t])
  case (pass st s)
  show ?case
  proof (cases "lo st \<le> hi st")
    case False
    then show ?thesis by (simp add: search_loop_exit)
  next
    case True
    let ?q = "block_request (rpcId s) (mid st)"
    have pos: "0 < nat (hi st - lo st + 1)" using True by simp
    obtain r s' where body: "loop_body url t st s = (r, s')" by (cases "loop_body url t st s")
    have s': "s' = post s ?q" using loop_body_snd [of url t st s] body by simp
    have inrange: "lo st \<le> mid st \<and> mid st \<le> hi st" using mid_bounds [OF True] .
    show ?thesis
    proof (cases r)
      case (Inl e)
      have one: "(1::nat) \<le> floorlog 2 (nat (hi st - lo st + 1))"
        using floorlog_step [OF pos, of 0] by simp
      have "search_loop url t st s = (Inl e, s')"
        using search_loop_abort [OF True] body Inl by simp
      then show ?thesis using s' inrange one
        by (intro exI [of _ "[?q]"]) auto
    next
      case (Inr st')
      have b: "loop_body url t st s = (Inr st', s')" using body Inr by simp
      from pass [OF True b] obtain qs where
        qs: "sent (snd (search_loop url t st' s')) = sent s' @ qs"
          "rpcId (snd (search_loop url t st' s')) = rpcId s' + length qs"
          "length qs \<le> floorlog 2 (nat (hi st' - lo st' + 1))"
          "\<forall>q \<in> set qs. \<exists>i k. lo st' \<le> k \<and> k \<le> hi st' \<and> q = block_request i k"
        by blast
      have eq: "search_loop url t st s = search_loop url t st' s'"
        using search_loop_pass [OF True b] .
      have len: "Suc (length qs) \<le> floorlog 2 (nat (hi st - lo st + 1))"
        using floorlog_step [OF pos loop_body_halves [OF True b]] qs(3) by simp
      have sub: "lo st \<le> lo st' \<and> hi st' \<le> hi st"
        using loop_body_next [OF b] inrange by auto
      have rng: "\<forall>q \<in> set (?q # qs). \<exists>i k. lo st \<le> k \<and> k \<le> hi st \<and> q = block_request i k"
      proof
        fix q assume "q \<in> set (?q # qs)"
        then consider "q = ?q" | "q \<in> set qs" by auto
        then show "\<exists>i k. lo st \<le> k \<and> k \<le> hi st \<and> q = block_request i k"
        proof cases
          case 1
          then show ?thesis using inrange by blast
        next
          case 2
          with qs(4) obtain i k where "lo st' \<le> k" "k \<le> hi st'" "q = block_request i k"
            by blast
          then show ?thesis using sub by (intro exI [of _ i] exI [of _ k]) simp
        qed
      qed
      show ?thesis
        unfolding eq using qs(1,2) len rng s'
        by (intro exI [of _ "?q # qs"]) simp
    qed
  qed
qed

section \<open>The search on a served chain\<close>

lemma rpc_fst:
  "fst (rpc f m ps s) =
     (case f \<lparr>req_id = rpcId s, req_method = m, req_params = ps\<rparr> of
        Rejected x \<Rightarrow> Inl (FetchRejected x)
      | HttpStatus st text \<Rightarrow> Inl (RpcHttp st text)
      | JsonError e \<Rightarrow> Inl (RpcError e)
      | JsonResult r \<Rightarrow> Inr r)"
  by (simp add: rpc_def Let_def)

lemma getLatestBlockNumber_serves:
  assumes "serves url latestNum blk tsf"
  shows "getLatestBlockNumber url s = (Inr latestNum, post s (number_request (rpcId s)))"
proof -
  from assms obtain hx where
    "fetch_string url (number_request (rpcId s)) = JsonResult hx" "hexToBigInt hx = Inr latestNum"
    unfolding serves_def by blast
  then have "fst (getLatestBlockNumber url s) = Inr latestNum"
    using rpc_fst [of "fetch_string url" "''eth_blockNumber''" "[]" s]
    by (auto simp: getLatestBlockNumber_def number_request_def split: prod.splits sum.splits)
  then show ?thesis
    using getLatestBlockNumber_snd [of url s] by (simp add: prod_eq_iff)
qed

lemma getBlockByNumber_serves:
  assumes "serves url latestNum blk tsf" and "0 \<le> k" and "k \<le> latestNum"
  shows "getBlockByNumber url k s = (Inr (blk k), post s (block_request (rpcId s) k))"
proof -
  from assms have "fetch_block url (block_request (rpcId s) k) = JsonResult (Some (blk k))"
    unfolding serves_def by blast
  then have "fst (getBlockByNumber url k s) = Inr (blk k)"
    using rpc_fst [of "fetch_block url" "''eth_getBlockByNumber''"
        "[PString (''0x'' @ toString16 k), PBool False]" s]
    by (auto simp: getBlockByNumber_def block_request_def Let_def
        split: prod.splits sum.splits option.splits)
  then show ?thesis
    using getBlockByNumber_snd [of url k s] by (simp add: prod_eq_iff)
qed

lemma serves_timestamp:
  "serves url latestNum blk tsf \<Longrightarrow> 0 \<le> k \<Longrightarrow> k \<le> latestNum \<Longrightarrow>
   hexToBigInt (timestamp (blk k)) = Inr (tsf k)"
  unfolding serves_def by blast

lemma loop_body_serves:
  assumes "serves url latestNum blk tsf" and "0 \<le> lo st" and "lo st \<le> hi st"
    and "hi st \<le> latestNum" and "exact_times tsf latestNum"
  shows "loop_body url t st s =
     (Inr (if tsf (mid st) < t
           then st\<lparr>candidate := Some \<lparr>cand_n = mid st, cand_ts = Number (tsf (mid st)),
                                       cand_hash = hash (blk (mid st))\<rparr>,
                   lo := mid st + 1\<rparr>
           else st\<lparr>hi := mid st - 1\<rparr>),
      post s (block_request (rpcId s) (mid st)))"
proof -
  have m: "0 \<le> mid st" "mid st \<le> latestNum"
    using mid_bounds [OF assms(3)] assms(2,4) by auto
  show ?thesis
    using getBlockByNumber_serves [OF assms(1) m, of s] serves_timestamp [OF assms(1) m]
      exact_timesD [OF assms(5) m]
    by (simp add: loop_body_def)
qed

text \<open>The loop under a served, non-decreasing chain.\<close>

lemma search_loop_serves:
  assumes sv: "serves url latestNum blk tsf" and mono: "nondecreasing tsf latestNum"
    and ex: "exact_times tsf latestNum"
  shows "0 \<le> lo st \<Longrightarrow> lo st \<le> hi st + 1 \<Longrightarrow> hi st \<le> latestNum \<Longrightarrow>
     (\<forall>k. 0 \<le> k \<and> k < lo st \<longrightarrow> tsf k < t) \<Longrightarrow>
     (\<forall>k. hi st < k \<and> k \<le> latestNum \<longrightarrow> t \<le> tsf k) \<Longrightarrow>
     candidate st = cand_at blk tsf (lo st) \<Longrightarrow>
     \<exists>b. 0 \<le> b \<and> b \<le> latestNum + 1 \<and>
         (\<forall>k. 0 \<le> k \<and> k < b \<longrightarrow> tsf k < t) \<and>
         (\<forall>k. b \<le> k \<and> k \<le> latestNum \<longrightarrow> t \<le> tsf k) \<and>
         fst (search_loop url t st s) = Inr (cand_at blk tsf b)"
proof (induction st s rule: search_loop_induct [where url = url and t = t])
  case (pass st s)
  show ?case
  proof (cases "lo st \<le> hi st")
    case False
    with pass.prems have "hi st + 1 = lo st" by simp
    with False pass.prems show ?thesis
      by (intro exI [of _ "lo st"]) (auto simp: search_loop_exit)
  next
    case True
    have m: "lo st \<le> mid st" "mid st \<le> hi st" using mid_bounds [OF True] by auto
    note body = loop_body_serves [OF sv pass.prems(1) True pass.prems(3) ex, of t s]
    show ?thesis
    proof (cases "tsf (mid st) < t")
      case below: True
      let ?st' = "st\<lparr>candidate := Some \<lparr>cand_n = mid st, cand_ts = Number (tsf (mid st)),
                                       cand_hash = hash (blk (mid st))\<rparr>, lo := mid st + 1\<rparr>"
      have b: "loop_body url t st s = (Inr ?st', post s (block_request (rpcId s) (mid st)))"
        using body below by simp
      have low: "\<forall>k. 0 \<le> k \<and> k < lo ?st' \<longrightarrow> tsf k < t"
      proof (intro allI impI)
        fix k assume "0 \<le> k \<and> k < lo ?st'"
        then have "0 \<le> k" "k \<le> mid st" by auto
        then have "tsf k \<le> tsf (mid st)"
          using mono m pass.prems(3) unfolding nondecreasing_def by force
        with below show "tsf k < t" by simp
      qed
      have c: "candidate ?st' = cand_at blk tsf (lo ?st')"
        using m pass.prems(1) by (simp add: cand_at_def)
      from pass.IH [OF True b] m pass.prems low c
      show ?thesis unfolding search_loop_pass [OF True b] by simp
    next
      case above: False
      let ?st' = "st\<lparr>hi := mid st - 1\<rparr>"
      have b: "loop_body url t st s = (Inr ?st', post s (block_request (rpcId s) (mid st)))"
        using body above by simp
      have high: "\<forall>k. hi ?st' < k \<and> k \<le> latestNum \<longrightarrow> t \<le> tsf k"
      proof (intro allI impI)
        fix k assume "hi ?st' < k \<and> k \<le> latestNum"
        then have "mid st \<le> k" "k \<le> latestNum" by auto
        then have "tsf (mid st) \<le> tsf k"
          using mono m pass.prems(1) unfolding nondecreasing_def by force
        with above show "t \<le> tsf k" by simp
      qed
      from pass.IH [OF True b] m pass.prems high
      show ?thesis unfolding search_loop_pass [OF True b] by simp
    qed
  qed
qed

lemma findBlockBeforeDate_search:
  assumes "getLatestBlockNumber url s = (Inr latestNum, s1)"
    and "getBlockByNumber url latestNum s1 = (Inr latest, s2)"
    and "hexToBigInt (timestamp latest) = Inr latestTs"
    and "0 < t" and "\<not> number_less (Number latestTs) t"
  shows "findBlockBeforeDate url t s =
     (case search_loop url t \<lparr>lo = 0, hi = latestNum, candidate = None\<rparr> s2 of
        (Inl e, s3) \<Rightarrow> (Inl e, s3)
      | (Inr c, s3) \<Rightarrow> (Inr (map_option to_found c), s3))"
  using assms
  by (simp add: findBlockBeforeDate_def to_found_def
      split: prod.splits sum.splits option.splits)

lemma findBlockBeforeDate_serves:
  assumes sv: "serves url latestNum blk tsf" and mono: "nondecreasing tsf latestNum"
    and "0 \<le> latestNum" and "0 < t" and "t \<le> tsf latestNum"
    and ex: "exact_times tsf latestNum"
  shows "\<exists>b. 0 \<le> b \<and> b \<le> latestNum \<and>
         (\<forall>k. 0 \<le> k \<and> k < b \<longrightarrow> tsf k < t) \<and>
         (\<forall>k. b \<le> k \<and> k \<le> latestNum \<longrightarrow> t \<le> tsf k) \<and>
         fst (findBlockBeforeDate url t s) = Inr (found_at blk tsf b)"
proof -
  let ?s1 = "post s (number_request (rpcId s))"
  let ?s2 = "post ?s1 (block_request (rpcId ?s1) latestNum)"
  let ?st = "\<lparr>lo = 0, hi = latestNum, candidate = None\<rparr>"
  have "\<exists>b. 0 \<le> b \<and> b \<le> latestNum + 1 \<and>
         (\<forall>k. 0 \<le> k \<and> k < b \<longrightarrow> tsf k < t) \<and>
         (\<forall>k. b \<le> k \<and> k \<le> latestNum \<longrightarrow> t \<le> tsf k) \<and>
         fst (search_loop url t ?st ?s2) = Inr (cand_at blk tsf b)"
    using assms(3) by (intro search_loop_serves [OF sv mono ex]) (simp_all add: cand_at_def)
  then obtain b where b: "0 \<le> b" "b \<le> latestNum + 1"
    "\<forall>k. 0 \<le> k \<and> k < b \<longrightarrow> tsf k < t" "\<forall>k. b \<le> k \<and> k \<le> latestNum \<longrightarrow> t \<le> tsf k"
    "fst (search_loop url t ?st ?s2) = Inr (cand_at blk tsf b)"
    by blast
  have "b \<noteq> latestNum + 1"
  proof
    assume "b = latestNum + 1"
    with b(3) assms(3) have "tsf latestNum < t" by simp
    with assms(5) show False by simp
  qed
  with b(2) have le: "b \<le> latestNum" by simp
  have "findBlockBeforeDate url t s =
     (case search_loop url t ?st ?s2 of
        (Inl e, s3) \<Rightarrow> (Inl e, s3)
      | (Inr c, s3) \<Rightarrow> (Inr (map_option to_found c), s3))"
    using assms(3,4,5) exact_timesD [OF ex, of latestNum]
    by (intro findBlockBeforeDate_search [OF getLatestBlockNumber_serves [OF sv]
          getBlockByNumber_serves [OF sv] serves_timestamp [OF sv]]) simp_all
  then have "fst (findBlockBeforeDate url t s) = Inr (map_option to_found (cand_at blk tsf b))"
    using b(5) by (simp split: prod.splits sum.splits)
  also have "map_option to_found (cand_at blk tsf b) = found_at blk tsf b"
    by (simp add: cand_at_def found_at_def to_found_def)
  finally show ?thesis using b(1,3,4) le by blast
qed

subsection \<open>Hex encoding of heights\<close>

lemma is_digit_not_space: "is_digit r c \<Longrightarrow> \<not> is_space c"
  by (auto simp: is_space_def is_digit_def digit_value_def)

lemma trim_id:
  assumes "x \<noteq> []" and "\<not> is_space (hd x)" and "\<not> is_space (last x)"
  shows "trim x = x"
proof -
  have 1: "dropWhile is_space x = x"
    using assms(1,2) by (cases x) simp_all
  have "rev x \<noteq> []" "\<not> is_space (hd (rev x))"
    using assms(1,3) by (simp_all add: hd_rev)
  then have 2: "dropWhile is_space (rev x) = rev x"
    by (cases "rev x") simp_all
  show ?thesis by (simp add: trim_def 1 2)
qed

lemma hex_char_digit:
  assumes "0 \<le> d" and "d < 16"
  shows "digit_value (hex_char d) = Some (nat d)"
proof -
  from assms
  have "d = 0 \<or> d = 1 \<or> d = 2 \<or> d = 3 \<or> d = 4 \<or> d = 5 \<or> d = 6 \<or> d = 7 \<or>
      d = 8 \<or> d = 9 \<or> d = 10 \<or> d = 11 \<or> d = 12 \<or> d = 13 \<or> d = 14 \<or> d = 15"
    by arith
  then show ?thesis
    by (elim disjE; hypsubst; simp add: hex_char_def digit_value_def)
qed

lemma radix_value_snoc:
  "radix_value r (ds @ [c]) = radix_value r ds * int r + digit_of c"
  by (simp add: radix_value_def)

lemma hex_digits_value:
  "0 \<le> k \<Longrightarrow>
   radix_value 16 (hex_digits k) = k \<and> list_all (is_digit 16) (hex_digits k) \<and>
   hex_digits k \<noteq> []"
proof (induction k rule: hex_digits.induct)
  case (1 k)
  show ?case
  proof (cases "k < 16")
    case True
    have "hex_digits k = [hex_char k]"
      using True by (subst hex_digits.simps) simp
    moreover have "nat k < 16" using True by simp
    ultimately show ?thesis
      using hex_char_digit [OF "1.prems" True] "1.prems"
      by (simp add: radix_value_def digit_of_def is_digit_def)
  next
    case False
    have m: "0 \<le> k mod 16" "k mod 16 < 16" by simp_all
    have d: "0 \<le> k div 16" using "1.prems" by simp
    have "hex_digits k = hex_digits (k div 16) @ [hex_char (k mod 16)]"
      using False by (subst hex_digits.simps) simp
    moreover have "k div 16 * 16 + k mod 16 = k" by simp
    moreover have "nat (k mod 16) < 16" using m by simp
    ultimately show ?thesis
      using "1.IH" [OF False d] hex_char_digit [OF m] m(1)
      by (simp add: radix_value_snoc digit_of_def is_digit_def)
  qed
qed

text \<open>The request encodes the height: decoding \<open>"0x" + k.toString(16)\<close> gives
  \<open>k\<close> back.\<close>

lemma hex_roundtrip:
  assumes "0 \<le> k"
  shows "StringToBigInt (''0x'' @ toString16 k) = Some k"
proof -
  let ?ds = "hex_digits k"
  let ?x = "''0x'' @ ?ds"
  note v = hex_digits_value [OF assms]
  have ne: "?x \<noteq> []" by simp
  have h: "\<not> is_space (hd ?x)" by (simp add: is_space_def)
  have "last ?x = last ?ds" using v by simp
  moreover have "is_digit 16 (last ?ds)"
    using v last_in_set [of ?ds] unfolding list_all_iff by blast
  ultimately have l: "\<not> is_space (last ?x)" by (simp add: is_digit_not_space)
  have "StringToBigInt ?x = Some (radix_value 16 ?ds)"
    unfolding StringToBigInt_def trim_id [OF ne h l]
    using v by (simp add: parse_radix_def)
  moreover have "toString16 k = ?ds" using assms by (simp add: toString16_def)
  ultimately show ?thesis using v by simp
qed

lemma hexToBigInt_encoded: "0 \<le> k \<Longrightarrow> hexToBigInt (''0x'' @ toString16 k) = Inr k"
  using hex_roundtrip [of k] by (simp add: hexToBigInt_def)

subsection \<open>Independence of the request identifier\<close>

lemma getLatestBlockNumber_fst:
  "fst (getLatestBlockNumber url s) =
     (case fst (rpc (fetch_string url) ''eth_blockNumber'' [] s) of
        Inl e \<Rightarrow> Inl e | Inr hexNum \<Rightarrow> hexToBigInt hexNum)"
  by (simp add: getLatestBlockNumber_def split: prod.splits sum.splits)

lemma getBlockByNumber_fst:
  "fst (getBlockByNumber url k s) =
     (case fst (rpc (fetch_block url) ''eth_getBlockByNumber''
                  [PString (''0x'' @ toString16 k), PBool False] s) of
        Inl e \<Rightarrow> Inl e
      | Inr None \<Rightarrow> Inl (BlockNotFound (''0x'' @ toString16 k))
      | Inr (Some block) \<Rightarrow> Inr block)"
  by (simp add: getBlockByNumber_def Let_def split: prod.splits sum.splits option.splits)

lemma rpc_fixed:
  assumes "f \<lparr>req_id = rpcId s, req_method = m, req_params = ps\<rparr> =
           f \<lparr>req_id = rpcId s', req_method = m, req_params = ps\<rparr>"
  shows "fst (rpc f m ps s) = fst (rpc f m ps s')"
  using assms by (simp add: rpc_fst)

lemma getLatestBlockNumber_fixed:
  assumes "answers_fixed url"
  shows "fst (getLatestBlockNumber url s) = fst (getLatestBlockNumber url s')"
proof -
  have "fst (rpc (fetch_string url) ''eth_blockNumber'' [] s) =
        fst (rpc (fetch_string url) ''eth_blockNumber'' [] s')"
    using assms unfolding answers_fixed_def by (intro rpc_fixed) simp
  then show ?thesis by (simp add: getLatestBlockNumber_fst)
qed

lemma getBlockByNumber_fixed:
  assumes "answers_fixed url"
  shows "fst (getBlockByNumber url k s) = fst (getBlockByNumber url k s')"
proof -
  let ?ps = "[PString (''0x'' @ toString16 k), PBool False]"
  have "fst (rpc (fetch_block url) ''eth_getBlockByNumber'' ?ps s) =
        fst (rpc (fetch_block url) ''eth_getBlockByNumber'' ?ps s')"
    using assms unfolding answers_fixed_def by (intro rpc_fixed) simp
  then show ?thesis by (simp add: getBlockByNumber_fst)
qed

lemma loop_body_fixed:
  assumes "answers_fixed url"
  shows "fst (loop_body url t st s) = fst (loop_body url t st s')"
proof -
  have "fst (loop_body url t st s) =
     (case fst (getBlockByNumber url (mid st) s) of
        Inl e \<Rightarrow> Inl e
      | Inr b \<Rightarrow>
          (case hexToBigInt (timestamp b) of
             Inl e \<Rightarrow> Inl e
           | Inr v \<Rightarrow>
               (if number_less (Number v) t
                then Inr (st\<lparr>candidate := Some \<lparr>cand_n = mid st, cand_ts = Number v,
                                                  cand_hash = hash b\<rparr>, lo := mid st + 1\<rparr>)
                else Inr (st\<lparr>hi := mid st - 1\<rparr>))))" for s
    by (simp add: loop_body_def Let_def split: prod.splits sum.splits)
  then show ?thesis
    using getBlockByNumber_fixed [OF assms, of "mid st" s s'] by simp
qed

lemma search_loop_fixed:
  assumes "answers_fixed url"
  shows "fst (search_loop url t st s) = fst (search_loop url t st s')"
proof (induction st s arbitrary: s' rule: search_loop_induct [where url = url and t = t])
  case (pass st s)
  show ?case
  proof (cases "lo st \<le> hi st")
    case False
    then show ?thesis by (simp add: search_loop_exit)
  next
    case True
    obtain r u where b: "loop_body url t st s = (r, u)" by (cases "loop_body url t st s")
    obtain r' u' where b': "loop_body url t st s' = (r', u')" by (cases "loop_body url t st s'")
    have rr: "r' = r" using loop_body_fixed [OF assms, of t st s s'] b b' by simp
    show ?thesis
    proof (cases r)
      case (Inl e)
      then show ?thesis
        using search_loop_abort [OF True] b b' rr by simp
    next
      case (Inr st')
      then show ?thesis
        using search_loop_pass [OF True] b b' rr pass [OF True, of st' u u'] by simp
    qed
  qed
qed

lemma findBlockBeforeDate_fixed:
  assumes "answers_fixed url"
  shows "fst (findBlockBeforeDate url t s) = fst (findBlockBeforeDate url t s')"
proof -
  obtain r1 s1 where g: "getLatestBlockNumber url s = (r1, s1)"
    by (cases "getLatestBlockNumber url s")
  obtain r1' s1' where g': "getLatestBlockNumber url s' = (r1', s1')"
    by (cases "getLatestBlockNumber url s'")
  have r1: "r1' = r1" using getLatestBlockNumber_fixed [OF assms, of s s'] g g' by simp
  show ?thesis
  proof (cases r1)
    case (Inl e)
    then show ?thesis using g g' r1 by (simp add: findBlockBeforeDate_def)
  next
    case (Inr latestNum)
    obtain r2 s2 where b: "getBlockByNumber url latestNum s1 = (r2, s2)"
      by (cases "getBlockByNumber url latestNum s1")
    obtain r2' s2' where b': "getBlockByNumber url latestNum s1' = (r2', s2')"
      by (cases "getBlockByNumber url latestNum s1'")
    have r2: "r2' = r2" using getBlockByNumber_fixed [OF assms, of latestNum s1 s1'] b b' by simp
    obtain r3 s3 where l: "search_loop url t \<lparr>lo = 0, hi = latestNum, candidate = None\<rparr> s2 = (r3, s3)"
      by (cases "search_loop url t \<lparr>lo = 0, hi = latestNum, candidate = None\<rparr> s2")
    obtain r3' s3' where l': "search_loop url t \<lparr>lo = 0, hi = latestNum, candidate = None\<rparr> s2' = (r3', s3')"
      by (cases "search_loop url t \<lparr>lo = 0, hi = latestNum, candidate = None\<rparr> s2'")
    have r3: "r3' = r3"
      using search_loop_fixed [OF assms, of t "\<lparr>lo = 0, hi = latestNum, candidate = None\<rparr>" s2 s2'] l l'
      by simp
    show ?thesis
      using g g' r1 Inr b b' r2 l l' r3
      by (simp add: findBlockBeforeDate_def Let_def split: sum.splits option.splits)
  qed
qed

section \<open>The test endpoint serves the example chain\<close>

lemma list_node_block:
  "fetch_block (list_node bs) (block_request i k) =
     (case StringToBigInt (''0x'' @ toString16 k) of
        None \<Rightarrow> JsonError ''invalid params''
      | Some j \<Rightarrow> JsonResult (if 0 \<le> j \<and> j < int (length bs) then Some (bs ! nat j) else None))"
  by (simp add: list_node_def block_request_def)

lemma list_node_number:
  "fetch_string (list_node bs) (number_request i) = JsonResult (''0x'' @ toString16 (int (length bs) - 1))"
  by (simp add: list_node_def number_request_def)

lemma example_timestamps:
  "k \<in> {0, 1, 2, 3, 4, 5} \<Longrightarrow> hexToBigInt (timestamp (example_blk k)) = Inr (example_ts k)"
  by (elim insertE emptyE; hypsubst; code_simp)

lemma example_length: "length example_blocks = 6"
  by (simp add: example_blocks_def)

lemma example_serves: "serves example_node 5 example_blk example_ts"
proof -
  have "fetch_string example_node (number_request i) = JsonResult ''0x5''" for i
    by (simp add: example_node_def list_node_number example_length toString16_def hex_char_def
        hex_digits.simps)
  moreover have "hexToBigInt ''0x5'' = Inr 5" by code_simp
  moreover have "fetch_block example_node (block_request i k) = JsonResult (Some (example_blk k)) \<and>
        hexToBigInt (timestamp (example_blk k)) = Inr (example_ts k)"
    if "0 \<le> k \<and> k \<le> 5" for i k
  proof -
    from that have k: "k \<in> {0, 1, 2, 3, 4, 5}" by auto
    show ?thesis
      using that hex_roundtrip [of k] example_timestamps [OF k]
      by (simp add: example_node_def list_node_block example_length example_blk_def)
  qed
  ultimately show ?thesis unfolding serves_def by blast
qed

lemma example_nondecreasing: "nondecreasing example_ts 5"
proof -
  have "sorted example_times" by (simp add: example_times_def)
  then have "example_times ! nat j \<le> example_times ! nat k" if "0 \<le> j" "j \<le> k" "k \<le> 5" for j k
    using that by (intro sorted_nth_mono) (simp_all add: example_times_def)
  then show ?thesis by (simp add: nondecreasing_def example_ts_def)
qed

lemma example_fixed: "answers_fixed example_node"
  by (simp add: answers_fixed_def example_node_def list_node_def)

section \<open>Chains beyond the exact range\<close>

lemma chain_serves:
  assumes "tss \<noteq> []" and "\<forall>x \<in> set tss. 0 \<le> x"
  shows "serves (chain_node tss) (int (length tss) - 1) (chain_blk tss) (chain_ts tss)"
proof -
  have len: "length (chain_blocks tss) = length tss" by (simp add: chain_blocks_def)
  have pos: "0 \<le> int (length tss) - 1" using assms(1) by (cases tss) simp_all
  have 1: "fetch_string (chain_node tss) (number_request i) =
             JsonResult (''0x'' @ toString16 (int (length tss) - 1)) \<and>
           hexToBigInt (''0x'' @ toString16 (int (length tss) - 1)) = Inr (int (length tss) - 1)" for i
    using hexToBigInt_encoded [OF pos] by (simp add: chain_node_def list_node_number len)
  have 2: "fetch_block (chain_node tss) (block_request i k) = JsonResult (Some (chain_blk tss k)) \<and>
           hexToBigInt (timestamp (chain_blk tss k)) = Inr (chain_ts tss k)"
    if k: "0 \<le> k \<and> k \<le> int (length tss) - 1" for i k
  proof -
    have n: "nat k < length tss" using k by linarith
    then have "0 \<le> tss ! nat k" using assms(2) by simp
    then have "hexToBigInt (timestamp (chain_blk tss k)) = Inr (chain_ts tss k)"
      using n hexToBigInt_encoded [of "tss ! nat k"]
      by (simp add: chain_blk_def chain_blocks_def chain_ts_def mk_block_def)
    moreover have "fetch_block (chain_node tss) (block_request i k) =
        JsonResult (Some (chain_blk tss k))"
      using k hex_roundtrip [of k]
      by (simp add: chain_node_def list_node_block len chain_blk_def)
    ultimately show ?thesis by simp
  qed
  show ?thesis unfolding serves_def using 1 2 by blast
qed

lemma chain_nondecreasing:
  assumes "sorted tss"
  shows "nondecreasing (chain_ts tss) (int (length tss) - 1)"
proof -
  have "tss ! nat j \<le> tss ! nat k" if "0 \<le> j" "j \<le> k" "k \<le> int (length tss) - 1" for j k
    using that by (intro sorted_nth_mono [OF assms]) simp_all
  then show ?thesis by (simp add: nondecreasing_def chain_ts_def)
qed

lemma tall_serves:
  assumes "0 \<le> N"
  shows "serves (tall_node N) N (tall_blk N) (tall_ts N)"
proof -
  have 1: "fetch_string (tall_node N) (number_request i) = JsonResult (''0x'' @ toString16 N) \<and>
           hexToBigInt (''0x'' @ toString16 N) = Inr N" for i
    using hexToBigInt_encoded [OF assms] by (simp add: tall_node_def number_request_def)
  have 2: "fetch_block (tall_node N) (block_request i k) = JsonResult (Some (tall_blk N k)) \<and>
           hexToBigInt (timestamp (tall_blk N k)) = Inr (tall_ts N k)"
    if k: "0 \<le> k \<and> k \<le> N" for i k
  proof -
    have "0 \<le> tall_ts N k" by (simp add: tall_ts_def)
    then have "hexToBigInt (timestamp (tall_blk N k)) = Inr (tall_ts N k)"
      using hexToBigInt_encoded [of "tall_ts N k"] by (simp add: tall_blk_def mk_block_def)
    moreover have "fetch_block (tall_node N) (block_request i k) = JsonResult (Some (tall_blk N k))"
      using k hex_roundtrip [of k] by (simp add: tall_node_def block_request_def)
    ultimately show ?thesis by simp
  qed
  show ?thesis unfolding serves_def using 1 2 by blast
qed

lemma tall_nondecreasing: "nondecreasing (tall_ts N) N"
  by (simp add: nondecreasing_def tall_ts_def)

lemma tall_exact: "exact_times (tall_ts N) N"
  by (simp add: exact_times_def tall_ts_def)

lemma tall_run:
  assumes "0 < N"
  shows "fst (findBlockBeforeDate (tall_node N) 150 s) =
     Inr (Some \<lparr>found_number = Number (N - 1), found_hash = hash (tall_blk N (N - 1)),
                 found_timestamp = Num 100\<rparr>)"
proof -
  have N: "0 \<le> N" using assms by simp
  have le: "150 \<le> tall_ts N N" by (simp add: tall_ts_def)
  from findBlockBeforeDate_serves [OF tall_serves [OF N] tall_nondecreasing N _ le tall_exact, of s]
  obtain b where b: "0 \<le> b" "b \<le> N" "\<forall>k. 0 \<le> k \<and> k < b \<longrightarrow> tall_ts N k < 150"
    "\<forall>k. b \<le> k \<and> k \<le> N \<longrightarrow> 150 \<le> tall_ts N k"
    "fst (findBlockBeforeDate (tall_node N) 150 s) = Inr (found_at (tall_blk N) (tall_ts N) b)"
    by auto
  have "b = N"
  proof (rule ccontr)
    assume "b \<noteq> N"
    with b(2) have "b < N" by simp
    with b(4) have "150 \<le> tall_ts N b" by simp
    with \<open>b < N\<close> show False by (simp add: tall_ts_def)
  qed
  moreover have "Number 100 = Num 100" by (rule Number_exact) simp
  ultimately show ?thesis using b(5) assms by (simp add: found_at_def tall_ts_def)
qed

lemma beyond_a_serves:
  "serves (chain_node beyond_times_a) 2 (chain_blk beyond_times_a) (chain_ts beyond_times_a)"
  using chain_serves [of beyond_times_a] by (simp add: beyond_times_a_def)

lemma beyond_a_nondecreasing: "nondecreasing (chain_ts beyond_times_a) 2"
  using chain_nondecreasing [of beyond_times_a] by (simp add: beyond_times_a_def)

lemma beyond_b_serves:
  "serves (chain_node beyond_times_b) 1 (chain_blk beyond_times_b) (chain_ts beyond_times_b)"
  using chain_serves [of beyond_times_b] by (simp add: beyond_times_b_def)

lemma beyond_b_nondecreasing: "nondecreasing (chain_ts beyond_times_b) 1"
  using chain_nondecreasing [of beyond_times_b] by (simp add: beyond_times_b_def)

lemma example_exact: "exact_times example_ts 5"
  unfolding exact_times_def
proof (intro allI impI)
  fix k :: int
  assume "0 \<le> k \<and> k \<le> 5"
  then have "k \<in> {0, 1, 2, 3, 4, 5}" by auto
  then show "\<bar>example_ts k\<bar> \<le> 2 ^ 53"
    by (elim insertE emptyE; hypsubst; simp add: example_ts_def example_times_def)
qed

section \<open>Strictness and maximality of the result\<close>

lemma example_run_250:
  "fst (findBlockBeforeDate example_node 250 net0) =
     Inr (Some \<lparr>found_number = Num 2, found_hash = ''0xb2'', found_timestamp = Num 200\<rparr>)"
  by code_simp

lemma beyond_a_run:
  "fst (findBlockBeforeDate (chain_node beyond_times_a) 9007199254740996 net0) =
     Inr (Some \<lparr>found_number = Num 0, found_hash = ''0xb0'', found_timestamp = Num 100\<rparr>)"
  by code_simp

lemma tall_run_even:
  "fst (findBlockBeforeDate (tall_node 9007199254740994) 150 net0) =
     Inr (Some \<lparr>found_number = Num 9007199254740992, found_hash = ''0xb20000000000001'',
                 found_timestamp = Num 100\<rparr>)"
proof -
  have "Number (9007199254740994 - 1) = Num 9007199254740992" by code_simp
  moreover have "hash (tall_blk 9007199254740994 (9007199254740994 - 1)) = ''0xb20000000000001''"
    by code_simp
  ultimately show ?thesis using tall_run [of 9007199254740994 net0] by simp
qed

text \<open>
  Claim C1, as stated, fails where \<open>Number\<close> rounds. On the non-decreasing chain
  with timestamps \<open>[100, 2\<^sup>5\<^sup>3 + 3, 2\<^sup>5\<^sup>3 + 5]\<close> and target \<open>2\<^sup>5\<^sup>3 + 4\<close>, which is
  positive and at most the latest timestamp, the search returns height 0 although
  height 1 has a timestamp strictly below the target: \<open>2\<^sup>5\<^sup>3 + 3\<close> is read as
  \<open>2\<^sup>5\<^sup>3 + 4\<close>. On a chain of height \<open>2\<^sup>5\<^sup>3 + 2\<close> whose blocks below the latest
  carry the timestamp 100 and the latest 200, with target 150, the height returned
  is \<open>2\<^sup>5\<^sup>3\<close>, the rounding of \<open>2\<^sup>5\<^sup>3 + 1\<close>, although height \<open>2\<^sup>5\<^sup>3 + 1\<close> has a
  timestamp below the target.
\<close>

theorem search_result_strict_and_maximal_counterexample:
  "serves (chain_node beyond_times_a) 2 (chain_blk beyond_times_a) (chain_ts beyond_times_a) \<and>
   nondecreasing (chain_ts beyond_times_a) 2 \<and>
   (0::int) < 9007199254740996 \<and> 9007199254740996 \<le> chain_ts beyond_times_a 2 \<and>
   fst (findBlockBeforeDate (chain_node beyond_times_a) 9007199254740996 net0) =
     Inr (Some \<lparr>found_number = Num 0, found_hash = ''0xb0'', found_timestamp = Num 100\<rparr>) \<and>
   (0::int) < 1 \<and> (1::int) \<le> 2 \<and> chain_ts beyond_times_a 1 < 9007199254740996 \<and>
   serves (tall_node 9007199254740994) 9007199254740994 (tall_blk 9007199254740994)
     (tall_ts 9007199254740994) \<and>
   nondecreasing (tall_ts 9007199254740994) 9007199254740994 \<and>
   (0::int) < 150 \<and> 150 \<le> tall_ts 9007199254740994 9007199254740994 \<and>
   fst (findBlockBeforeDate (tall_node 9007199254740994) 150 net0) =
     Inr (Some \<lparr>found_number = Num 9007199254740992, found_hash = ''0xb20000000000001'',
                 found_timestamp = Num 100\<rparr>) \<and>
   (9007199254740992::int) < 9007199254740993 \<and> (9007199254740993::int) \<le> 9007199254740994 \<and>
   tall_ts 9007199254740994 9007199254740993 < 150"
proof -
  have "serves (tall_node 9007199254740994) 9007199254740994 (tall_blk 9007199254740994)
     (tall_ts 9007199254740994)"
    by (rule tall_serves) simp
  then show ?thesis
    using beyond_a_serves beyond_a_nondecreasing beyond_a_run tall_nondecreasing tall_run_even
    by (simp add: chain_ts_def beyond_times_a_def tall_ts_def)
qed

text \<open>
  Claim C1, amended. On a chain state whose timestamps are non-decreasing over
  \<open>[0, latestNum]\<close>, with \<open>0 \<le> latestNum\<close>, a target \<open>t\<close> with
  \<open>0 < t \<le> tsf latestNum\<close>, and with the latest height and all timestamps of
  magnitude at most \<open>2\<^sup>5\<^sup>3\<close> (where \<open>Number\<close> is exact): when the search returns a
  block, it is the block served at some height \<open>h\<close> of \<open>[0, latestNum]\<close>, its
  timestamp is strictly below the target, and no height above \<open>h\<close>, up to
  \<open>latestNum\<close>, has a timestamp strictly below the target. On the chain with
  timestamps \<open>[100, 200, 200, 300, 400, 500]\<close> and target \<open>250\<close> the result is
  height 2.
\<close>

theorem search_result_strict_and_maximal:
  assumes "serves url latestNum blk tsf" and "nondecreasing tsf latestNum"
    and "0 \<le> latestNum" and "0 < t" and "t \<le> tsf latestNum"
    and "latestNum \<le> 2 ^ 53" and "exact_times tsf latestNum"
    and "fst (findBlockBeforeDate url t s) = Inr (Some r)"
  shows "\<exists>h. 0 \<le> h \<and> h \<le> latestNum \<and>
           r = \<lparr>found_number = Num h, found_hash = hash (blk h), found_timestamp = Num (tsf h)\<rparr> \<and>
           tsf h < t \<and> (\<forall>k. h < k \<and> k \<le> latestNum \<longrightarrow> \<not> tsf k < t)"
proof -
  from findBlockBeforeDate_serves [OF assms(1-5,7), of s] obtain b where
    b: "0 \<le> b" "b \<le> latestNum" "\<forall>k. 0 \<le> k \<and> k < b \<longrightarrow> tsf k < t"
      "\<forall>k. b \<le> k \<and> k \<le> latestNum \<longrightarrow> t \<le> tsf k"
      "fst (findBlockBeforeDate url t s) = Inr (found_at blk tsf b)"
    by blast
  from b(5) assms(8) have f: "found_at blk tsf b = Some r" by simp
  then have nz: "b \<noteq> 0" by (auto simp: found_at_def)
  let ?h = "b - 1"
  have h: "0 \<le> ?h" "?h \<le> latestNum" using b(1,2) nz by simp_all
  have "\<bar>?h\<bar> \<le> 2 ^ 53" using h assms(6) by simp
  then have n1: "Number ?h = Num ?h" by (rule Number_exact)
  have n2: "Number (tsf ?h) = Num (tsf ?h)" using exact_timesD [OF assms(7) h] .
  have r: "r = \<lparr>found_number = Num ?h, found_hash = hash (blk ?h), found_timestamp = Num (tsf ?h)\<rparr>"
    using f nz n1 n2 by (simp add: found_at_def)
  have "tsf ?h < t" using b(3) h(1) by simp
  moreover have "\<forall>k. ?h < k \<and> k \<le> latestNum \<longrightarrow> \<not> tsf k < t"
    using b(4) by (simp add: not_less)
  ultimately show ?thesis using h r by blast
qed

theorem search_result_strict_and_maximal_witness:
  "serves example_node 5 example_blk example_ts \<and> nondecreasing example_ts 5 \<and>
   (5::int) \<le> 2 ^ 53 \<and> exact_times example_ts 5 \<and>
   (0::int) < 250 \<and> 250 \<le> example_ts 5 \<and>
   fst (findBlockBeforeDate example_node 250 net0) =
     Inr (Some \<lparr>found_number = Num 2, found_hash = ''0xb2'', found_timestamp = Num 200\<rparr>) \<and>
   example_ts 2 < 250 \<and>
   \<not> example_ts 3 < 250 \<and> \<not> example_ts 4 < 250 \<and> \<not> example_ts 5 < 250"
proof -
  have le: "(250::int) \<le> example_ts 5" by (simp add: example_ts_def example_times_def)
  from search_result_strict_and_maximal [OF example_serves example_nondecreasing _ _ le _
      example_exact example_run_250]
  obtain h where h: "found_number \<lparr>found_number = Num 2, found_hash = ''0xb2'',
        found_timestamp = Num 200\<rparr> = Num h"
    "example_ts h < 250" "\<forall>k. h < k \<and> k \<le> 5 \<longrightarrow> \<not> example_ts k < 250"
    by force
  from h(1) have "h = 2" by simp
  with h(2,3) have "example_ts 2 < 250 \<and>
      \<not> example_ts 3 < 250 \<and> \<not> example_ts 4 < 250 \<and> \<not> example_ts 5 < 250"
    by simp
  then show ?thesis
    using example_serves example_nondecreasing example_exact le example_run_250 by simp
qed

section \<open>The fast paths and the empty result\<close>

lemma example_run_1000:
  "findBlockBeforeDate example_node 1000 net0 =
     (Inr (Some \<lparr>found_number = Num 5, found_hash = ''0xb5'', found_timestamp = Num 500\<rparr>),
      post (post net0 (number_request 1)) (block_request 2 5))"
  by code_simp

lemma example_run_0:
  "findBlockBeforeDate example_node 0 net0 =
     (Inr None, post (post net0 (number_request 1)) (block_request 2 5))"
  by code_simp

lemma example_run_50: "fst (findBlockBeforeDate example_node 50 net0) = Inr None"
  by code_simp

lemma example_first_requests:
  "getLatestBlockNumber example_node net0 = (Inr 5, post net0 (number_request 1)) \<and>
   getBlockByNumber example_node 5 (post net0 (number_request 1)) =
     (Inr (example_blk 5), post (post net0 (number_request 1)) (block_request 2 5))"
  by code_simp

lemma example_latest_timestamp:
  "hexToBigInt (timestamp (example_blk 5)) = Inr 500"
  by code_simp

lemma beyond_c_run:
  "getLatestBlockNumber (chain_node beyond_times_c) net0 = (Inr 1, post net0 (number_request 1))"
  "getBlockByNumber (chain_node beyond_times_c) 1 (post net0 (number_request 1)) =
     (Inr (chain_blk beyond_times_c 1), post (post net0 (number_request 1)) (block_request 2 1))"
  "hexToBigInt (timestamp (chain_blk beyond_times_c 1)) = Inr 9007199254740995"
  "fst (findBlockBeforeDate (chain_node beyond_times_c) 9007199254740996 net0) =
     Inr (Some \<lparr>found_number = Num 0, found_hash = ''0xb0'',
                 found_timestamp = Num 9007199254740992\<rparr>)"
  "length (sent (snd (findBlockBeforeDate (chain_node beyond_times_c) 9007199254740996 net0))) = 4"
  by code_simp+

lemma negative_run:
  "getLatestBlockNumber negative_node net0 = (Inr 0, post net0 (number_request 1))"
  "getBlockByNumber negative_node 0 (post net0 (number_request 1)) =
     (Inr \<lparr>number = ''0x0'', timestamp = ''-5'', hash = ''0xb0'', parentHash = ''0x0''\<rparr>,
      post (post net0 (number_request 1)) (block_request 2 0))"
  "hexToBigInt ''-5'' = Inr (- 5)"
  "fst (findBlockBeforeDate negative_node (- 3) net0) = Inr None"
  by code_simp+

lemma tall_run_odd:
  "getLatestBlockNumber (tall_node 9007199254740993) net0 =
     (Inr 9007199254740993, post net0 (number_request 1))"
  "hexToBigInt (timestamp (tall_blk 9007199254740993 9007199254740993)) = Inr 200"
  "fst (findBlockBeforeDate (tall_node 9007199254740993) 300 net0) =
     Inr (Some \<lparr>found_number = Num 9007199254740992, found_hash = ''0xb20000000000001'',
                 found_timestamp = Num 200\<rparr>)"
  by code_simp+

text \<open>
  Claim C2, as stated, fails in three ways. (a) Where \<open>Number\<close> rounds the
  timestamp: on the chain \<open>[2\<^sup>5\<^sup>3 + 1, 2\<^sup>5\<^sup>3 + 3]\<close> the target \<open>2\<^sup>5\<^sup>3 + 4\<close> is
  strictly greater than the latest timestamp, yet the search runs, posts four
  requests and returns height 0 with timestamp \<open>2\<^sup>5\<^sup>3\<close>. (b) Where the target is
  not positive: a latest timestamp \<open>-5\<close> and the target \<open>-3\<close> give \<open>None\<close>, since
  the test \<open>targetUnixSec <= 0\<close> comes first. (c) Where \<open>Number\<close> rounds the
  height: with latest height \<open>2\<^sup>5\<^sup>3 + 1\<close> the object returned carries the height
  \<open>2\<^sup>5\<^sup>3\<close>.
\<close>

theorem target_after_chain_gives_latest_counterexample:
  "getLatestBlockNumber (chain_node beyond_times_c) net0 = (Inr 1, post net0 (number_request 1)) \<and>
   getBlockByNumber (chain_node beyond_times_c) 1 (post net0 (number_request 1)) =
     (Inr (chain_blk beyond_times_c 1), post (post net0 (number_request 1)) (block_request 2 1)) \<and>
   hexToBigInt (timestamp (chain_blk beyond_times_c 1)) = Inr 9007199254740995 \<and>
   (9007199254740995::int) < 9007199254740996 \<and>
   fst (findBlockBeforeDate (chain_node beyond_times_c) 9007199254740996 net0) =
     Inr (Some \<lparr>found_number = Num 0, found_hash = ''0xb0'',
                 found_timestamp = Num 9007199254740992\<rparr>) \<and>
   length (sent (snd (findBlockBeforeDate (chain_node beyond_times_c) 9007199254740996 net0))) = 4 \<and>
   getLatestBlockNumber negative_node net0 = (Inr 0, post net0 (number_request 1)) \<and>
   getBlockByNumber negative_node 0 (post net0 (number_request 1)) =
     (Inr \<lparr>number = ''0x0'', timestamp = ''-5'', hash = ''0xb0'', parentHash = ''0x0''\<rparr>,
      post (post net0 (number_request 1)) (block_request 2 0)) \<and>
   hexToBigInt ''-5'' = Inr (- 5) \<and> (- 5 :: int) < - 3 \<and>
   fst (findBlockBeforeDate negative_node (- 3) net0) = Inr None \<and>
   getLatestBlockNumber (tall_node 9007199254740993) net0 =
     (Inr 9007199254740993, post net0 (number_request 1)) \<and>
   hexToBigInt (timestamp (tall_blk 9007199254740993 9007199254740993)) = Inr 200 \<and>
   (200::int) < 300 \<and>
   fst (findBlockBeforeDate (tall_node 9007199254740993) 300 net0) =
     Inr (Some \<lparr>found_number = Num 9007199254740992, found_hash = ''0xb20000000000001'',
                 found_timestamp = Num 200\<rparr>) \<and>
   Num 9007199254740992 \<noteq> Num 9007199254740993"
  using beyond_c_run negative_run tall_run_odd by simp

text \<open>
  Claim C2, amended. When the two opening requests succeed, the target is positive
  and strictly greater than the timestamp of the latest block, and the latest height
  and timestamp have magnitude at most \<open>2\<^sup>5\<^sup>3\<close>, the search returns exactly the
  latest block (its height, hash and timestamp), and the only requests posted are
  the two opening ones: no probe of the binary search is made.
\<close>

theorem target_after_chain_gives_latest:
  assumes "getLatestBlockNumber url s = (Inr latestNum, s1)"
    and "getBlockByNumber url latestNum s1 = (Inr latest, s2)"
    and "hexToBigInt (timestamp latest) = Inr latestTs"
    and "0 < t" and "latestTs < t"
    and "\<bar>latestNum\<bar> \<le> 2 ^ 53" and "\<bar>latestTs\<bar> \<le> 2 ^ 53"
  shows "findBlockBeforeDate url t s =
           (Inr (Some \<lparr>found_number = Num latestNum, found_hash = hash latest,
                       found_timestamp = Num latestTs\<rparr>), s2) \<and>
         sent s2 = sent s @ [number_request (rpcId s), block_request (rpcId s + 1) latestNum]"
proof -
  have pos: "\<not> t \<le> 0" using assms(4) by simp
  have n1: "Number latestNum = Num latestNum" using assms(6) by (rule Number_exact)
  have n2: "Number latestTs = Num latestTs" using assms(7) by (rule Number_exact)
  have s1: "s1 = post s (number_request (rpcId s))"
    using getLatestBlockNumber_snd [of url s] assms(1) by simp
  have s2: "s2 = post s1 (block_request (rpcId s1) latestNum)"
    using getBlockByNumber_snd [of url latestNum s1] assms(2) by simp
  have "findBlockBeforeDate url t s =
           (Inr (Some \<lparr>found_number = Num latestNum, found_hash = hash latest,
                       found_timestamp = Num latestTs\<rparr>), s2)"
    using assms(1,2,3,5) pos n1 n2 by (simp add: findBlockBeforeDate_def)
  then show ?thesis by (simp add: s1 s2)
qed

theorem target_after_chain_gives_latest_witness:
  "(0::int) < 1000 \<and> (500::int) < 1000 \<and> \<bar>5::int\<bar> \<le> 2 ^ 53 \<and> \<bar>500::int\<bar> \<le> 2 ^ 53 \<and>
   findBlockBeforeDate example_node 1000 net0 =
     (Inr (Some \<lparr>found_number = Num 5, found_hash = hash (example_blk 5),
                 found_timestamp = Num 500\<rparr>),
      post (post net0 (number_request 1)) (block_request 2 5)) \<and>
   sent (post (post net0 (number_request 1)) (block_request 2 5)) =
     sent net0 @ [number_request (rpcId net0), block_request (rpcId net0 + 1) 5]"
  using target_after_chain_gives_latest [OF conjunct1 [OF example_first_requests]
      conjunct2 [OF example_first_requests] example_latest_timestamp, of 1000]
  by simp

text \<open>
  Claim C3. For a target \<open>t \<le> 0\<close> the search returns \<open>None\<close> right after the
  two opening requests, whatever the chain contains: the result does not depend on
  the block served, and the only block requested is the one at the latest height.
\<close>

theorem nonpositive_target_gives_none:
  assumes "getLatestBlockNumber url s = (Inr latestNum, s1)"
    and "getBlockByNumber url latestNum s1 = (Inr latest, s2)"
    and "hexToBigInt (timestamp latest) = Inr latestTs"
    and "t \<le> 0"
  shows "findBlockBeforeDate url t s = (Inr None, s2) \<and>
         sent s2 = sent s @ [number_request (rpcId s), block_request (rpcId s + 1) latestNum]"
proof -
  have s1: "s1 = post s (number_request (rpcId s))"
    using getLatestBlockNumber_snd [of url s] assms(1) by simp
  have s2: "s2 = post s1 (block_request (rpcId s1) latestNum)"
    using getBlockByNumber_snd [of url latestNum s1] assms(2) by simp
  have "findBlockBeforeDate url t s = (Inr None, s2)"
    using assms by (simp add: findBlockBeforeDate_def)
  then show ?thesis by (simp add: s1 s2)
qed

theorem nonpositive_target_gives_none_witness:
  "(0::int) \<le> 0 \<and>
   findBlockBeforeDate example_node 0 net0 =
     (Inr None, post (post net0 (number_request 1)) (block_request 2 5)) \<and>
   sent (post (post net0 (number_request 1)) (block_request 2 5)) =
     sent net0 @ [number_request (rpcId net0), block_request (rpcId net0 + 1) 5]"
  using nonpositive_target_gives_none [OF conjunct1 [OF example_first_requests]
      conjunct2 [OF example_first_requests] example_latest_timestamp, of 0]
  by simp

lemma beyond_b_run:
  "fst (findBlockBeforeDate (chain_node beyond_times_b) 9007199254740996 net0) = Inr None"
  by code_simp

text \<open>
  Claim C4, as stated, fails where \<open>Number\<close> rounds. On the non-decreasing chain
  with timestamps \<open>[2\<^sup>5\<^sup>3 + 3, 2\<^sup>5\<^sup>3 + 5]\<close> and target \<open>2\<^sup>5\<^sup>3 + 4\<close>, which is
  positive and at most the latest timestamp, the search returns \<open>None\<close> although
  block 0 has a timestamp strictly below the target.
\<close>

theorem none_iff_no_block_before_target_counterexample:
  "serves (chain_node beyond_times_b) 1 (chain_blk beyond_times_b) (chain_ts beyond_times_b) \<and>
   nondecreasing (chain_ts beyond_times_b) 1 \<and>
   (0::int) < 9007199254740996 \<and> 9007199254740996 \<le> chain_ts beyond_times_b 1 \<and>
   fst (findBlockBeforeDate (chain_node beyond_times_b) 9007199254740996 net0) = Inr None \<and>
   chain_ts beyond_times_b 0 < 9007199254740996"
  using beyond_b_serves beyond_b_nondecreasing beyond_b_run
  by (simp add: chain_ts_def beyond_times_b_def)

text \<open>
  Claim C4, amended. On a non-decreasing chain state whose timestamps have
  magnitude at most \<open>2\<^sup>5\<^sup>3\<close> and for a target with \<open>0 < t \<le> tsf latestNum\<close>, the
  search returns \<open>None\<close> if and only if no height of \<open>[0, latestNum]\<close> has a
  timestamp strictly below the target, that is, if and only if the timestamp of
  block 0 is at least the target. The example chain with target 50 returns
  \<open>None\<close>.
\<close>

theorem none_iff_no_block_before_target:
  assumes "serves url latestNum blk tsf" and "nondecreasing tsf latestNum"
    and "0 \<le> latestNum" and "0 < t" and "t \<le> tsf latestNum"
    and "exact_times tsf latestNum"
  shows "(fst (findBlockBeforeDate url t s) = Inr None \<longleftrightarrow>
            (\<forall>k. 0 \<le> k \<and> k \<le> latestNum \<longrightarrow> \<not> tsf k < t)) \<and>
         (fst (findBlockBeforeDate url t s) = Inr None \<longleftrightarrow> t \<le> tsf 0)"
proof -
  from findBlockBeforeDate_serves [OF assms, of s] obtain b where
    b: "0 \<le> b" "b \<le> latestNum" "\<forall>k. 0 \<le> k \<and> k < b \<longrightarrow> tsf k < t"
      "\<forall>k. b \<le> k \<and> k \<le> latestNum \<longrightarrow> t \<le> tsf k"
      "fst (findBlockBeforeDate url t s) = Inr (found_at blk tsf b)"
    by blast
  have none: "fst (findBlockBeforeDate url t s) = Inr None \<longleftrightarrow> b = 0"
    using b(5) by (simp add: found_at_def)
  have zero: "b = 0 \<longleftrightarrow> t \<le> tsf 0"
  proof
    assume "b = 0"
    with b(4) assms(3) show "t \<le> tsf 0" by simp
  next
    assume le: "t \<le> tsf 0"
    show "b = 0"
    proof (rule ccontr)
      assume "b \<noteq> 0"
      with b(1,3) have "tsf 0 < t" by simp
      with le show False by simp
    qed
  qed
  have all: "t \<le> tsf 0 \<longleftrightarrow> (\<forall>k. 0 \<le> k \<and> k \<le> latestNum \<longrightarrow> \<not> tsf k < t)"
  proof
    assume le: "t \<le> tsf 0"
    show "\<forall>k. 0 \<le> k \<and> k \<le> latestNum \<longrightarrow> \<not> tsf k < t"
    proof (intro allI impI)
      fix k assume k: "0 \<le> k \<and> k \<le> latestNum"
      then have "tsf 0 \<le> tsf k" using assms(2) unfolding nondecreasing_def by simp
      with le show "\<not> tsf k < t" by simp
    qed
  next
    assume "\<forall>k. 0 \<le> k \<and> k \<le> latestNum \<longrightarrow> \<not> tsf k < t"
    with assms(3) show "t \<le> tsf 0" by (simp add: not_less)
  qed
  show ?thesis using none zero all by simp
qed

theorem none_iff_no_block_before_target_witness:
  "serves example_node 5 example_blk example_ts \<and> nondecreasing example_ts 5 \<and>
   exact_times example_ts 5 \<and> (0::int) < 50 \<and> 50 \<le> example_ts 5 \<and>
   fst (findBlockBeforeDate example_node 50 net0) = Inr None \<and> 50 \<le> example_ts 0"
proof -
  have le: "(50::int) \<le> example_ts 5" by (simp add: example_ts_def example_times_def)
  from none_iff_no_block_before_target [OF example_serves example_nondecreasing _ _ le
      example_exact, of net0]
    example_run_50
  have "50 \<le> example_ts 0" by simp
  then show ?thesis
    using example_serves example_nondecreasing example_exact le example_run_50 by simp
qed

section \<open>Failure of an oracle call\<close>

lemma findBlockBeforeDate_latest_error:
  assumes "fst (getLatestBlockNumber url s) = Inl e"
  shows "findBlockBeforeDate url t s = (Inl e, post s (number_request (rpcId s)))"
proof -
  obtain r s1 where g: "getLatestBlockNumber url s = (r, s1)"
    by (cases "getLatestBlockNumber url s")
  with assms getLatestBlockNumber_snd [of url s]
  have "getLatestBlockNumber url s = (Inl e, post s (number_request (rpcId s)))" by simp
  then show ?thesis by (simp add: findBlockBeforeDate_def)
qed

lemma findBlockBeforeDate_block_error:
  assumes "getLatestBlockNumber url s = (Inr latestNum, s1)"
    and "fst (getBlockByNumber url latestNum s1) = Inl e"
  shows "findBlockBeforeDate url t s = (Inl e, post s1 (block_request (rpcId s1) latestNum))"
proof -
  obtain r s2 where g: "getBlockByNumber url latestNum s1 = (r, s2)"
    by (cases "getBlockByNumber url latestNum s1")
  with assms(2) getBlockByNumber_snd [of url latestNum s1]
  have "getBlockByNumber url latestNum s1 =
          (Inl e, post s1 (block_request (rpcId s1) latestNum))" by simp
  then show ?thesis using assms(1) by (simp add: findBlockBeforeDate_def)
qed

lemma search_loop_probe_error:
  assumes "loop_reach url t c (st, s')" and "lo st \<le> hi st"
    and "fst (getBlockByNumber url (mid st) s') = Inl e"
  shows "search_loop url t (fst c) (snd c) = (Inl e, post s' (block_request (rpcId s') (mid st)))"
proof -
  have "search_loop url t st s' = (Inl e, post s' (block_request (rpcId s') (mid st)))"
    using search_loop_abort [OF assms(2) loop_body_error [OF assms(3)]] .
  then show ?thesis using loop_reach_search_loop [OF assms(1)] by simp
qed

text \<open>
  Claim C6. Wherever an oracle call fails, the whole operation ends there with that
  failure as its result: when the fetch of the latest height fails, when the fetch of
  the latest block fails, and when the probe fails at any configuration the loop
  reaches, whatever candidate it holds. The final client state is the one right after
  the failed request, so nothing is retried and nothing more is posted.
\<close>

theorem oracle_failure_aborts_search:
  "(fst (getLatestBlockNumber url s) = Inl e \<longrightarrow>
      findBlockBeforeDate url t s = (Inl e, post s (number_request (rpcId s)))) \<and>
   (getLatestBlockNumber url s = (Inr latestNum, s1) \<and>
    fst (getBlockByNumber url latestNum s1) = Inl e \<longrightarrow>
      findBlockBeforeDate url t s = (Inl e, post s1 (block_request (rpcId s1) latestNum))) \<and>
   (getLatestBlockNumber url s = (Inr latestNum, s1) \<and>
    getBlockByNumber url latestNum s1 = (Inr latest, s2) \<and>
    hexToBigInt (timestamp latest) = Inr latestTs \<and> 0 < t \<and>
    \<not> number_less (Number latestTs) t \<and>
    loop_reach url t (\<lparr>lo = 0, hi = latestNum, candidate = None\<rparr>, s2) (st, s') \<and>
    lo st \<le> hi st \<and> fst (getBlockByNumber url (mid st) s') = Inl e \<longrightarrow>
      findBlockBeforeDate url t s = (Inl e, post s' (block_request (rpcId s') (mid st))))"
proof (intro conjI impI)
  assume "fst (getLatestBlockNumber url s) = Inl e"
  then show "findBlockBeforeDate url t s = (Inl e, post s (number_request (rpcId s)))"
    by (rule findBlockBeforeDate_latest_error)
next
  assume "getLatestBlockNumber url s = (Inr latestNum, s1) \<and>
    fst (getBlockByNumber url latestNum s1) = Inl e"
  then show "findBlockBeforeDate url t s = (Inl e, post s1 (block_request (rpcId s1) latestNum))"
    using findBlockBeforeDate_block_error by blast
next
  assume a: "getLatestBlockNumber url s = (Inr latestNum, s1) \<and>
    getBlockByNumber url latestNum s1 = (Inr latest, s2) \<and>
    hexToBigInt (timestamp latest) = Inr latestTs \<and> 0 < t \<and>
    \<not> number_less (Number latestTs) t \<and>
    loop_reach url t (\<lparr>lo = 0, hi = latestNum, candidate = None\<rparr>, s2) (st, s') \<and>
    lo st \<le> hi st \<and> fst (getBlockByNumber url (mid st) s') = Inl e"
  then have "search_loop url t \<lparr>lo = 0, hi = latestNum, candidate = None\<rparr> s2 =
      (Inl e, post s' (block_request (rpcId s') (mid st)))"
    using search_loop_probe_error [of url t "(\<lparr>lo = 0, hi = latestNum, candidate = None\<rparr>, s2)" st s' e]
    by simp
  moreover have "findBlockBeforeDate url t s =
     (case search_loop url t \<lparr>lo = 0, hi = latestNum, candidate = None\<rparr> s2 of
        (Inl e, s3) \<Rightarrow> (Inl e, s3)
      | (Inr c, s3) \<Rightarrow> (Inr (map_option to_found c), s3))"
    using a by (intro findBlockBeforeDate_search [of url s latestNum s1 latest s2 latestTs]) simp_all
  ultimately show "findBlockBeforeDate url t s = (Inl e, post s' (block_request (rpcId s') (mid st)))"
    by simp
qed

lemma failing_first:
  "fst (getLatestBlockNumber (failing_node 1) net0) = Inl (FetchRejected ''timeout'')"
  by code_simp

lemma failing_second:
  "getLatestBlockNumber (failing_node 2) net0 = (Inr 5, post net0 (number_request 1))"
  "fst (getBlockByNumber (failing_node 2) 5 (post net0 (number_request 1))) =
     Inl (FetchRejected ''timeout'')"
  by code_simp+

lemma failing_fourth:
  "getLatestBlockNumber (failing_node 4) net0 = (Inr 5, post net0 (number_request 1))"
  "getBlockByNumber (failing_node 4) 5 (post net0 (number_request 1)) = (Inr (example_blk 5), net2)"
  "hexToBigInt (timestamp (example_blk 5)) = Inr 500"
  "\<not> number_less (Number 500) 250"
  "lo after_first_probe \<le> hi after_first_probe"
  "fst (getBlockByNumber (failing_node 4) (mid after_first_probe) (post net2 (block_request 3 2))) =
     Inl (FetchRejected ''timeout'')"
  by code_simp+

lemma failing_fourth_reach:
  "loop_reach (failing_node 4) 250 (\<lparr>lo = 0, hi = 5, candidate = None\<rparr>, net2)
     (after_first_probe, post net2 (block_request 3 2))"
proof (rule reach_pass [OF reach_start])
  show "lo \<lparr>lo = 0, hi = 5, candidate = None\<rparr> \<le> hi \<lparr>lo = 0, hi = 5, candidate = None\<rparr>" by simp
  show "loop_body (failing_node 4) 250 \<lparr>lo = 0, hi = 5, candidate = None\<rparr> net2 =
      (Inr after_first_probe, post net2 (block_request 3 2))"
    by code_simp
qed

lemma example_ids:
  "rpcId net0 = 1" "rpcId (post net0 (number_request 1)) = 2"
  "rpcId (post net2 (block_request 3 2)) = 4" "mid after_first_probe = 4"
  by code_simp+

theorem oracle_failure_aborts_search_witness:
  "findBlockBeforeDate (failing_node 1) 250 net0 =
     (Inl (FetchRejected ''timeout''), post net0 (number_request 1)) \<and>
   findBlockBeforeDate (failing_node 2) 250 net0 =
     (Inl (FetchRejected ''timeout''), post (post net0 (number_request 1)) (block_request 2 5)) \<and>
   candidate after_first_probe \<noteq> None \<and>
   findBlockBeforeDate (failing_node 4) 250 net0 =
     (Inl (FetchRejected ''timeout''),
      post (post net2 (block_request 3 2)) (block_request 4 4))"
proof -
  note T = oracle_failure_aborts_search [of _ net0 "FetchRejected ''timeout''" 250
      5 "post net0 (number_request 1)" "example_blk 5" net2 500 after_first_probe
      "post net2 (block_request 3 2)"]
  have "findBlockBeforeDate (failing_node 1) 250 net0 =
     (Inl (FetchRejected ''timeout''), post net0 (number_request (rpcId net0)))"
    by (rule T [THEN conjunct1, THEN mp]) (rule failing_first)
  then have 1: "findBlockBeforeDate (failing_node 1) 250 net0 =
     (Inl (FetchRejected ''timeout''), post net0 (number_request 1))"
    by (simp only: example_ids)
  have "findBlockBeforeDate (failing_node 2) 250 net0 =
     (Inl (FetchRejected ''timeout''),
      post (post net0 (number_request 1))
        (block_request (rpcId (post net0 (number_request 1))) 5))"
    by (rule T [THEN conjunct2, THEN conjunct1, THEN mp]) (intro conjI failing_second)
  then have 2: "findBlockBeforeDate (failing_node 2) 250 net0 =
     (Inl (FetchRejected ''timeout''), post (post net0 (number_request 1)) (block_request 2 5))"
    by (simp only: example_ids)
  have "findBlockBeforeDate (failing_node 4) 250 net0 =
     (Inl (FetchRejected ''timeout''),
      post (post net2 (block_request 3 2))
        (block_request (rpcId (post net2 (block_request 3 2))) (mid after_first_probe)))"
    by (rule T [THEN conjunct2, THEN conjunct2, THEN mp])
       (intro conjI failing_fourth failing_fourth_reach; simp)
  then have 3: "findBlockBeforeDate (failing_node 4) 250 net0 =
     (Inl (FetchRejected ''timeout''),
      post (post net2 (block_request 3 2)) (block_request 4 4))"
    by (simp only: example_ids)
  show ?thesis using 1 2 3 by (simp add: after_first_probe_def)
qed

section \<open>Termination and the number of probes\<close>

lemma findBlockBeforeDate_snd:
  assumes "getLatestBlockNumber url s = (Inr latestNum, s1)"
  shows "snd (findBlockBeforeDate url t s) = post s1 (block_request (rpcId s1) latestNum) \<or>
         snd (findBlockBeforeDate url t s) =
           snd (search_loop url t \<lparr>lo = 0, hi = latestNum, candidate = None\<rparr>
                  (post s1 (block_request (rpcId s1) latestNum)))"
proof -
  obtain r2 s2 where g: "getBlockByNumber url latestNum s1 = (r2, s2)"
    by (cases "getBlockByNumber url latestNum s1")
  then have s2: "s2 = post s1 (block_request (rpcId s1) latestNum)"
    using getBlockByNumber_snd [of url latestNum s1] by simp
  show ?thesis
    using assms g unfolding s2 [symmetric]
    by (simp add: findBlockBeforeDate_def Let_def split: sum.splits prod.splits option.splits)
qed

lemma findBlockBeforeDate_trace:
  assumes "getLatestBlockNumber url s = (Inr latestNum, s1)"
  shows "\<exists>qs. sent (snd (findBlockBeforeDate url t s)) =
               sent s @ number_request (rpcId s) # block_request (rpcId s + 1) latestNum # qs \<and>
             length qs \<le> floorlog 2 (nat (latestNum + 1)) \<and>
             (\<forall>q \<in> set qs. \<exists>i k. 0 \<le> k \<and> k \<le> latestNum \<and> q = block_request i k)"
proof -
  have s1: "s1 = post s (number_request (rpcId s))"
    using getLatestBlockNumber_snd [of url s] assms by simp
  let ?s2 = "post s1 (block_request (rpcId s1) latestNum)"
  let ?st = "\<lparr>lo = 0, hi = latestNum, candidate = None\<rparr>"
  have pre: "sent ?s2 = sent s @ [number_request (rpcId s), block_request (rpcId s + 1) latestNum]"
    by (simp add: s1)
  from findBlockBeforeDate_snd [OF assms, of t] show ?thesis
  proof
    assume "snd (findBlockBeforeDate url t s) = ?s2"
    then show ?thesis using pre by (intro exI [of _ "[]"]) simp
  next
    assume a: "snd (findBlockBeforeDate url t s) = snd (search_loop url t ?st ?s2)"
    from search_loop_trace [of url t ?st ?s2] obtain qs where
      qs: "sent (snd (search_loop url t ?st ?s2)) = sent ?s2 @ qs"
        "length qs \<le> floorlog 2 (nat (hi ?st - lo ?st + 1))"
        "\<forall>q \<in> set qs. \<exists>i k. lo ?st \<le> k \<and> k \<le> hi ?st \<and> q = block_request i k"
      by blast
    show ?thesis
      using a qs pre by (intro exI [of _ qs]) simp
  qed
qed

text \<open>
  Claim C7. The loop runs while \<open>lo \<le> hi\<close>, and a completed pass either moves
  \<open>lo\<close> to \<open>mid + 1\<close> or \<open>hi\<close> to \<open>mid - 1\<close>, which strictly shrinks
  \<open>hi - lo\<close>. The loop is a total function (its termination is proved with the
  measure \<open>hi - lo + 1\<close>): from every configuration and against every endpoint it
  returns, having posted at most \<open>floorlog 2 (hi - lo + 1)\<close> requests, where
  \<open>floorlog 2 m = \<lfloor>log\<^sub>2 m\<rfloor> + 1\<close>. A whole search posts at most
  \<open>2 + floorlog 2 (latestNum + 1)\<close> requests.
\<close>

theorem search_loop_terminates_logarithmic:
  "(lo st \<le> hi st \<and> loop_body url t st s = (Inr st', s') \<longrightarrow>
      (lo st' = mid st + 1 \<and> hi st' = hi st \<or> lo st' = lo st \<and> hi st' = mid st - 1) \<and>
      hi st' - lo st' < hi st - lo st) \<and>
   (\<exists>r qs. search_loop url t st s = (r, s\<lparr>rpcId := rpcId s + length qs, sent := sent s @ qs\<rparr>) \<and>
      length qs \<le> floorlog 2 (nat (hi st - lo st + 1))) \<and>
   (fst (getLatestBlockNumber url s) = Inr latestNum \<longrightarrow>
      length (sent (snd (findBlockBeforeDate url t s))) \<le>
        length (sent s) + 2 + floorlog 2 (nat (latestNum + 1)))"
proof (intro conjI impI)
  assume a: "lo st \<le> hi st \<and> loop_body url t st s = (Inr st', s')"
  then show "lo st' = mid st + 1 \<and> hi st' = hi st \<or> lo st' = lo st \<and> hi st' = mid st - 1"
    using loop_body_next by blast
  from a show "hi st' - lo st' < hi st - lo st"
    using loop_body_shrinks by blast
next
  from search_loop_trace [of url t st s] obtain qs where
    qs: "sent (snd (search_loop url t st s)) = sent s @ qs"
      "rpcId (snd (search_loop url t st s)) = rpcId s + length qs"
      "length qs \<le> floorlog 2 (nat (hi st - lo st + 1))"
    by blast
  have "snd (search_loop url t st s) = s\<lparr>rpcId := rpcId s + length qs, sent := sent s @ qs\<rparr>"
    using qs(1,2) by simp
  then have "search_loop url t st s =
      (fst (search_loop url t st s), s\<lparr>rpcId := rpcId s + length qs, sent := sent s @ qs\<rparr>)"
    by (simp add: prod_eq_iff)
  with qs(3) show "\<exists>r qs. search_loop url t st s =
      (r, s\<lparr>rpcId := rpcId s + length qs, sent := sent s @ qs\<rparr>) \<and>
      length qs \<le> floorlog 2 (nat (hi st - lo st + 1))"
    by blast
next
  assume "fst (getLatestBlockNumber url s) = Inr latestNum"
  then have "getLatestBlockNumber url s = (Inr latestNum, snd (getLatestBlockNumber url s))"
    by (simp add: prod_eq_iff)
  from findBlockBeforeDate_trace [OF this, of t]
  show "length (sent (snd (findBlockBeforeDate url t s))) \<le>
        length (sent s) + 2 + floorlog 2 (nat (latestNum + 1))"
    by auto
qed

lemma example_probe_count:
  "lo (\<lparr>lo = 0, hi = 5, candidate = None\<rparr>) \<le> hi (\<lparr>lo = 0, hi = 5, candidate = None\<rparr>)"
  "loop_body example_node 250 \<lparr>lo = 0, hi = 5, candidate = None\<rparr> net2 =
     (Inr after_first_probe, post net2 (block_request 3 2))"
  "fst (getLatestBlockNumber example_node net0) = Inr 5"
  "length (sent (snd (findBlockBeforeDate example_node 250 net0))) = 5"
  "floorlog 2 (nat (5 + 1)) = 3"
  by code_simp+

theorem search_loop_terminates_logarithmic_witness:
  "hi after_first_probe - lo after_first_probe < 5 - 0 \<and>
   length (sent (snd (findBlockBeforeDate example_node 250 net0))) \<le> length (sent net0) + 2 + 3"
proof -
  note T = search_loop_terminates_logarithmic [of "\<lparr>lo = 0, hi = 5, candidate = None\<rparr>"
      example_node 250 net2 after_first_probe "post net2 (block_request 3 2)" 5]
  have "hi after_first_probe - lo after_first_probe <
        hi \<lparr>lo = 0, hi = 5, candidate = None\<rparr> - lo \<lparr>lo = 0, hi = 5, candidate = None\<rparr>"
    using T [THEN conjunct1, THEN mp, OF conjI [OF example_probe_count(1,2)]] by blast
  then have 1: "hi after_first_probe - lo after_first_probe < 5 - 0" by simp
  note U = search_loop_terminates_logarithmic [of _ example_node 250 net0 _ _ 5]
  have "length (sent (snd (findBlockBeforeDate example_node 250 net0))) \<le>
        length (sent net0) + 2 + floorlog 2 (nat (5 + 1))"
    by (rule U [THEN conjunct2, THEN conjunct2, THEN mp]) (rule example_probe_count(3))
  then have 2: "length (sent (snd (findBlockBeforeDate example_node 250 net0))) \<le>
        length (sent net0) + 2 + 3"
    by (simp only: example_probe_count(5))
  show ?thesis using 1 2 by blast
qed

section \<open>The probe point\<close>

text \<open>
  Claim C8. In every pass of the loop the height requested is \<open>mid\<close>, and
  \<open>mid\<close>, the bigint shift \<open>(lo + hi) >> 1n\<close>, is the floor of the arithmetic mean
  of the bounds. The bounds are unbounded integers, so the sum cannot overflow; the
  equation holds for all integers, negative ones included.
\<close>

theorem probe_is_floor_of_mean:
  "mid st = \<lfloor>(real_of_int (lo st) + real_of_int (hi st)) / 2\<rfloor> \<and>
   mid st = (lo st + hi st) div 2 \<and>
   snd (loop_body url t st s) = post s (block_request (rpcId s) (mid st))"
proof -
  have d: "mid st = (lo st + hi st) div 2"
    by (simp add: mid_def drop_bit_eq_div)
  have "\<lfloor>real_of_int (lo st + hi st) / real_of_int 2\<rfloor> = (lo st + hi st) div 2"
    by (rule floor_divide_of_int_eq)
  then have "\<lfloor>(real_of_int (lo st) + real_of_int (hi st)) / 2\<rfloor> = (lo st + hi st) div 2"
    by simp
  with d loop_body_snd [of url t st s] show ?thesis by simp
qed

section \<open>Determinism\<close>

text \<open>
  Claim C9. Against a fixed oracle state the result of the search is the same in
  every invocation: it does not depend on the client state the invocation starts
  from, in particular not on the request counter, which is the only thing an earlier
  invocation changes.
\<close>

theorem repeated_search_same_result:
  assumes "answers_fixed url"
  shows "fst (findBlockBeforeDate url t s') = fst (findBlockBeforeDate url t s) \<and>
         fst (findBlockBeforeDate url t (snd (findBlockBeforeDate url t s))) =
           fst (findBlockBeforeDate url t s)"
  using findBlockBeforeDate_fixed [OF assms] by blast

theorem repeated_search_same_result_witness:
  "answers_fixed example_node \<and>
   fst (findBlockBeforeDate example_node 250 net0) =
     Inr (Some \<lparr>found_number = Num 2, found_hash = ''0xb2'', found_timestamp = Num 200\<rparr>) \<and>
   fst (findBlockBeforeDate example_node 250 (snd (findBlockBeforeDate example_node 250 net0))) =
     Inr (Some \<lparr>found_number = Num 2, found_hash = ''0xb2'', found_timestamp = Num 200\<rparr>)"
  using repeated_search_same_result [OF example_fixed, of 250 net0 net0] example_fixed example_run_250
  by simp

section \<open>The range of the probes\<close>

text \<open>
  Claim C10. At every configuration the loop reaches from \<open>lo = 0\<close>,
  \<open>hi = latestNum\<close>, the bounds satisfy \<open>0 \<le> lo\<close> and \<open>hi \<le> latestNum\<close>, and
  the height requested by the next pass lies in \<open>[0, latestNum]\<close>. Every request
  the loop posts is a block request for a height of that range.
\<close>

theorem probes_stay_in_range:
  assumes "loop_reach url t (\<lparr>lo = 0, hi = latestNum, candidate = None\<rparr>, s0) (st, s)"
  shows "0 \<le> lo st \<and> hi st \<le> latestNum \<and>
         (lo st \<le> hi st \<longrightarrow>
            0 \<le> mid st \<and> mid st \<le> latestNum \<and>
            snd (loop_body url t st s) = post s (block_request (rpcId s) (mid st))) \<and>
         (\<forall>q \<in> set (drop (length (sent s0))
                       (sent (snd (search_loop url t \<lparr>lo = 0, hi = latestNum, candidate = None\<rparr> s0)))).
            \<exists>i k. 0 \<le> k \<and> k \<le> latestNum \<and> q = block_request i k)"
proof -
  from loop_reach_bounds [OF assms] have b: "0 \<le> lo st" "hi st \<le> latestNum" by simp_all
  have m: "0 \<le> mid st \<and> mid st \<le> latestNum" if "lo st \<le> hi st"
    using mid_bounds [OF that] b by simp
  from search_loop_trace [of url t "\<lparr>lo = 0, hi = latestNum, candidate = None\<rparr>" s0]
  obtain qs where
    qs: "sent (snd (search_loop url t \<lparr>lo = 0, hi = latestNum, candidate = None\<rparr> s0)) = sent s0 @ qs"
      "\<forall>q \<in> set qs. \<exists>i k. 0 \<le> k \<and> k \<le> latestNum \<and> q = block_request i k"
    by auto
  show ?thesis using b m loop_body_snd [of url t st s] qs by simp
qed

theorem probes_stay_in_range_witness:
  "loop_reach example_node 250 (\<lparr>lo = 0, hi = 5, candidate = None\<rparr>, net2)
     (after_first_probe, post net2 (block_request 3 2)) \<and>
   lo after_first_probe = 3 \<and> hi after_first_probe = 5 \<and> mid after_first_probe = 4 \<and>
   snd (loop_body example_node 250 after_first_probe (post net2 (block_request 3 2))) =
     post (post net2 (block_request 3 2)) (block_request 4 4)"
proof -
  have r: "loop_reach example_node 250 (\<lparr>lo = 0, hi = 5, candidate = None\<rparr>, net2)
     (after_first_probe, post net2 (block_request 3 2))"
    by (rule reach_pass [OF reach_start]) (rule example_probe_count(1,2))+
  have le: "lo after_first_probe \<le> hi after_first_probe" by (simp add: after_first_probe_def)
  from probes_stay_in_range [OF r] le
  have "snd (loop_body example_node 250 after_first_probe (post net2 (block_request 3 2))) =
     post (post net2 (block_request 3 2))
       (block_request (rpcId (post net2 (block_request 3 2))) (mid after_first_probe))"
    by blast
  then have "snd (loop_body example_node 250 after_first_probe (post net2 (block_request 3 2))) =
     post (post net2 (block_request 3 2)) (block_request 4 4)"
    by (simp only: example_ids)
  then show ?thesis using r example_ids(4) by (simp add: after_first_probe_def)
qed

section \<open>Units of a numeric target\<close>

text \<open>
  The two literals of the specification: ten digits are taken as seconds, thirteen
  digits as milliseconds.
\<close>

lemma parse_numbers:
  "Number 1704067199 = Num 1704067199"
  "Number 1704067199000 = Num 1704067199000"
  "Number (- 20000000000) = Num (- 20000000000)"
  "Math_floor_div 1704067199000 1000 = 1704067199"
  by code_simp+

lemma parse_seconds_example:
  "parseTargetToUnixSeconds Date_parse ''1704067199'' = Inr 1704067199"
  by (simp add: parseTargetToUnixSeconds_def numeric_literal_def trim_def is_space_def
      is_digit_def digit_value_def Number_of_literal_def radix_value_def digit_of_def
      Number_isFinite_def parse_numbers)

lemma parse_milliseconds_example:
  "parseTargetToUnixSeconds Date_parse ''1704067199000'' = Inr 1704067199"
  by (simp add: parseTargetToUnixSeconds_def numeric_literal_def trim_def is_space_def
      is_digit_def digit_value_def Number_of_literal_def radix_value_def digit_of_def
      Number_isFinite_def parse_numbers)

text \<open>
  Beyond \<open>2\<^sup>5\<^sup>3\<close> the literal is rounded before it is compared and divided, and
  the division rounds again before the floor is taken.
\<close>

lemma parse_rounds_literal:
  "Number_of_literal ''9007199254740993'' = Num 9007199254740992"
  "Math_floor_div 4312105334746385920 1000 = 4312105334746386"
  by code_simp+

text \<open>
  Claim C5. The claim reads a literal as milliseconds when its magnitude exceeds
  \<open>10\<^sup>1\<^sup>0\<close>, and the comment in the source says "milliseconds (> 10
  digits)". The source tests \<open>n > 1e10\<close> on the signed value, so a negative literal
  of eleven digits or more is kept as seconds: \<open>-20000000000\<close> is returned as it is,
  not as \<open>-20000000\<close>.
\<close>

theorem parse_negative_milliseconds_kept_as_seconds:
  "parseTargetToUnixSeconds Date_parse ''-20000000000'' = Inr (- 20000000000)"
  by (simp add: parseTargetToUnixSeconds_def numeric_literal_def trim_def is_space_def
      is_digit_def digit_value_def Number_of_literal_def radix_value_def digit_of_def
      Number_isFinite_def parse_numbers)

end
